theory Spec2Isabelle
  imports Complex_Main
begin

section \<open>Sanctuary Sprint: the simulation of \<open>src/app/page.tsx\<close>\<close>

text \<open>
  The component \<open>Page\<close> keeps its simulation in React refs and advances it in a
  \<open>requestAnimationFrame\<close> callback. The refs are the fields of one record, every
  handler is a function from state to state, and JavaScript numbers are modelled as
  real numbers (the counters, which only ever receive integer increments, as
  integers). \<open>Math.sin\<close> is \<open>sin\<close> and \<open>Math.pow(0.08, dt)\<close> is \<open>0.08 powr dt\<close>.
\<close>

subsection \<open>Data\<close>

text \<open>\<open>type Wave = { id, y, gapX, gapW, speed }\<close>; \<open>id\<close> and \<open>y\<close> are written
  \<open>wid\<close> and \<open>wy\<close>.\<close>

record wave =
  wid :: nat
  wy :: real
  gapX :: real
  gapW :: real
  speed :: real

datatype status = READY | LIVE | DOWN

text \<open>The object held by \<open>useState\<close> (lines 35-43).\<close>

record ui_state =
  ui_score :: int
  ui_best :: real
  ui_streak :: int
  ui_status :: status
  ui_msg :: string
  ui_sessionSec :: int
  ui_intensity :: real

type_synonym updater = "ui_state \<Rightarrow> ui_state"

text \<open>
  \<open>localStorage\<close>, reduced to the one key \<open>sanctuary_best\<close> the program uses.
  Either call may throw (storage disabled, quota exceeded); the two flags say which.
\<close>

datatype storage_error = StorageError

record storage =
  item :: "string option"
  getThrows :: bool
  setThrows :: bool

definition getItem :: "storage \<Rightarrow> storage_error + string option" where
  "getItem st = (if getThrows st then Inl StorageError else Inr (item st))"

definition setItem :: "storage \<Rightarrow> string \<Rightarrow> storage_error + storage" where
  "setItem st v = (if setThrows st then Inl StorageError else Inr (st\<lparr>item := Some v\<rparr>))"

text \<open>
  The value of \<open>Number(s)\<close>: a finite number, an infinity or NaN. The conversions
  \<open>Number\<close> and \<open>String\<close> are built into the language, not part of the program; they
  are parameters \<open>jsNumber\<close> and \<open>jsString\<close> of the functions that call them.
\<close>

datatype jsnum = Fin real | PosInf | NegInf | NaN

fun isFinite :: "jsnum \<Rightarrow> bool" where
  "isFinite (Fin r) = True"
| "isFinite PosInf = False"
| "isFinite NegInf = False"
| "isFinite NaN = False"

text \<open>The refs of the component (lines 12-32 and 91), the \<open>useState\<close> object and the storage.\<close>

record state =
  lastT :: real
  t0 :: real
  px :: real
  vel :: real
  dash :: real
  charge :: real
  alive :: bool
  waves :: "wave list"
  waveId :: nat
  score :: int
  best :: real
  streak :: int
  hits :: int
  nearMiss :: int
  holding :: bool
  ui :: ui_state
  store :: storage

subsection \<open>Operations\<close>

definition clamp :: "real \<Rightarrow> real \<Rightarrow> real \<Rightarrow> real" where
  "clamp n a b = max a (min b n)"

text \<open>The state of the first render; \<open>pnow\<close> is the value of \<open>performance.now()\<close>.\<close>

definition init :: "real \<Rightarrow> storage \<Rightarrow> state" where
  "init pnow st =
     \<lparr>lastT = 0, t0 = pnow, px = 0.5, vel = 0, dash = 0, charge = 0, alive = True,
      waves = [], waveId = 1, score = 0, best = 0, streak = 0, hits = 0, nearMiss = 0,
      holding = False,
      ui = \<lparr>ui_score = 0, ui_best = 0, ui_streak = 0, ui_status = READY,
            ui_msg = ''Hold to charge. Release to dash through the gap.'',
            ui_sessionSec = 0, ui_intensity = 1\<rparr>,
      store = st\<rparr>"

text \<open>\<open>reset(runMsg?)\<close>, lines 53-79.\<close>

definition reset :: "string option \<Rightarrow> real \<Rightarrow> state \<Rightarrow> state" where
  "reset runMsg pnow s =
     s\<lparr>px := 0.5, vel := 0, dash := 0, charge := 0, alive := True,
       waves := [], waveId := 1,
       score := 0, streak := 0, hits := 0, nearMiss := 0,
       t0 := pnow,
       ui := (ui s)\<lparr>ui_score := 0, ui_streak := 0, ui_status := LIVE,
                    ui_msg := (case runMsg of Some m \<Rightarrow> m
                               | None \<Rightarrow> ''Flow state: breathe, charge, dash.''),
                    ui_sessionSec := 0, ui_intensity := 1\<rparr>\<rparr>"

text \<open>\<open>spawnWave()\<close>, lines 82-88; \<open>r\<close> is the value of \<open>Math.random()\<close>.\<close>

definition spawnWave :: "real \<Rightarrow> state \<Rightarrow> state" where
  "spawnWave r s =
     (let gw = clamp (0.26 - real_of_int (score s) * 0.0006) 0.12 0.26;
          gx = clamp (0.15 + r * 0.70) 0.1 0.9;
          sp = clamp (0.35 + real_of_int (score s) * 0.00015) 0.35 1.15
      in s\<lparr>waveId := waveId s + 1,
           waves := waves s @ [\<lparr>wid = waveId s, wy = 1.15, gapX = gx, gapW = gw, speed = sp\<rparr>]\<rparr>)"

text \<open>\<open>onHoldStart()\<close>, lines 93-96.\<close>

definition onHoldStart :: "real \<Rightarrow> state \<Rightarrow> state" where
  "onHoldStart pnow s =
     (let s1 = (if ui_status (ui s) = READY \<or> ui_status (ui s) = DOWN
                then reset (Some ''RUN.'') pnow s else s)
      in s1\<lparr>holding := True\<rparr>)"

text \<open>\<open>onHoldEnd()\<close>, lines 98-107.\<close>

definition onHoldEnd :: "state \<Rightarrow> state" where
  "onHoldEnd s =
     (let s1 = s\<lparr>holding := False\<rparr>;
          c = charge s1;
          s2 = (if alive s1 then s1\<lparr>dash := clamp (dash s1 + (0.35 + c * 1.2)) 0 1.6\<rparr> else s1)
      in s2\<lparr>charge := 0\<rparr>)"

text \<open>
  The body of the effect before \<open>tick\<close> is declared, lines 125-129: the stored best is
  read; a throwing \<open>getItem\<close> leaves everything as it was.
\<close>

definition loadBest :: "(string \<Rightarrow> jsnum) \<Rightarrow> state \<Rightarrow> state" where
  "loadBest jsNumber s =
     (case getItem (store s) of
        Inl e \<Rightarrow> s
      | Inr v \<Rightarrow>
          (let b = jsNumber (case v of None \<Rightarrow> ''0'' | Some x \<Rightarrow> x);
               bv = (if isFinite b then (case b of Fin r \<Rightarrow> r | _ \<Rightarrow> 0) else 0)
           in s\<lparr>best := bv, ui := (ui s)\<lparr>ui_best := bv\<rparr>\<rparr>))"

subsection \<open>One frame\<close>

text \<open>Line 132: \<open>lastRef.current || now\<close> is \<open>now\<close> exactly when the ref holds 0.\<close>

definition tick_dt :: "real \<Rightarrow> state \<Rightarrow> real" where
  "tick_dt now s = min 0.033 ((now - (if lastT s = 0 then now else lastT s)) / 1000)"

text \<open>Lines 137-141.\<close>

definition chargeStep :: "real \<Rightarrow> state \<Rightarrow> state" where
  "chargeStep dt s =
     (if holding s then s\<lparr>charge := clamp (charge s + dt * 0.85) 0 1\<rparr>
      else s\<lparr>charge := clamp (charge s - dt * 1.3) 0 1\<rparr>)"

text \<open>Lines 144-145.\<close>

definition driftStep :: "real \<Rightarrow> real \<Rightarrow> state \<Rightarrow> state" where
  "driftStep now dt s = (let drift = sin (now * 0.0012) * 0.02 in s\<lparr>vel := vel s + drift * dt\<rparr>)"

text \<open>Lines 148-152.\<close>

definition dashStep :: "real \<Rightarrow> state \<Rightarrow> state" where
  "dashStep dt s =
     (if dash s > 0 then
        (let impulse = dash s * (if holding s then 0.25 else 1.0);
             s1 = s\<lparr>vel := vel s + (impulse * dt) * 1.8\<rparr>
         in s1\<lparr>dash := clamp (dash s1 - dt * 1.6) 0 2\<rparr>)
      else s)"

text \<open>Lines 155-156.\<close>

definition moveStep :: "real \<Rightarrow> state \<Rightarrow> state" where
  "moveStep dt s =
     (let s1 = s\<lparr>vel := vel s * (0.08 powr dt)\<rparr>
      in s1\<lparr>px := clamp (px s1 + vel s1) 0.06 0.94\<rparr>)"

text \<open>
  Lines 159-162. \<open>waves\<close> is the array \<open>spawnWave\<close> pushes to, so \<open>last\<close> is read after
  the first push; \<open>last\<close> is undefined only when the array is empty.
\<close>

definition spawnStep :: "real \<Rightarrow> real \<Rightarrow> state \<Rightarrow> state" where
  "spawnStep r1 r2 s =
     (let s1 = (if length (waves s) = 0 then spawnWave r1 s else s)
      in if waves s1 \<noteq> [] \<and> wy (last (waves s1)) < 0.65 then spawnWave r2 s1 else s1)"

text \<open>Lines 165-167.\<close>

definition advance :: "real \<Rightarrow> wave \<Rightarrow> wave" where
  "advance dt w = w\<lparr>wy := wy w - dt * speed w\<rparr>"

definition advanceWaves :: "real \<Rightarrow> state \<Rightarrow> state" where
  "advanceWaves dt s = s\<lparr>waves := map (advance dt) (waves s)\<rparr>"

text \<open>Lines 170-203, the body of the loop over the waves, read after the advance.\<close>

definition playerY :: real where
  "playerY = 0.22"

definition crossing :: "real \<Rightarrow> wave \<Rightarrow> bool" where
  "crossing dt w = (wy w \<le> playerY \<and> wy w > playerY - dt * speed w)"

definition gapLeft :: "wave \<Rightarrow> real" where
  "gapLeft w = gapX w - gapW w / 2"

definition gapRight :: "wave \<Rightarrow> real" where
  "gapRight w = gapX w + gapW w / 2"

definition inside :: "real \<Rightarrow> wave \<Rightarrow> bool" where
  "inside p w = (p \<ge> gapLeft w \<and> p \<le> gapRight w)"

text \<open>The success branch, lines 182-193.\<close>

definition hitWave :: "wave \<Rightarrow> state \<Rightarrow> state" where
  "hitWave w s =
     (let s1 = s\<lparr>hits := hits s + 1\<rparr>;
          s2 = s1\<lparr>streak := streak s1 + 1\<rparr>;
          edgeDist = min (px s2 - gapLeft w) (gapRight w - px s2);
          s3 = (if edgeDist < 0.03
                then s2\<lparr>nearMiss := nearMiss s2 + 1, score := score s2 + 9\<rparr> else s2)
      in s3\<lparr>score := score s3 + (18 + \<lfloor>real_of_int (streak s3) * 0.9\<rfloor>)\<rparr>)"

text \<open>The updater passed to \<open>setUi\<close> in the fail branch, lines 197-201.\<close>

definition uiDown :: updater where
  "uiDown p = p\<lparr>ui_status := DOWN, ui_msg := ''Down. Breathe. Tap + hold to restart.''\<rparr>"

text \<open>
  One iteration: the new refs and the \<open>setUi\<close> calls it makes. React queues the
  updaters and applies them in order at the next render.
\<close>

definition resolveWave :: "real \<Rightarrow> wave \<Rightarrow> state \<Rightarrow> state \<times> updater list" where
  "resolveWave dt w s =
     (if \<not> crossing dt w then (s, [])
      else if inside (px s) w then (hitWave w s, [])
      else (s\<lparr>alive := False\<rparr>, [uiDown]))"

fun collide :: "real \<Rightarrow> wave list \<Rightarrow> state \<Rightarrow> state \<times> updater list" where
  "collide dt [] s = (s, [])"
| "collide dt (w # ws) s =
     (case resolveWave dt w s of
        (s1, us1) \<Rightarrow> (case collide dt ws s1 of (s2, us2) \<Rightarrow> (s2, us1 @ us2)))"

text \<open>Line 206.\<close>

definition prune :: "state \<Rightarrow> state" where
  "prune s = s\<lparr>waves := filter (\<lambda>w. wy w > - 0.2) (waves s)\<rparr>"

text \<open>Lines 209-214: a throwing \<open>setItem\<close> is caught and ignored.\<close>

definition updateBest :: "(real \<Rightarrow> string) \<Rightarrow> state \<Rightarrow> state" where
  "updateBest jsString s =
     (if real_of_int (score s) > best s then
        (let s1 = s\<lparr>best := real_of_int (score s)\<rparr>
         in (case setItem (store s1) (jsString (best s1)) of
               Inl e \<Rightarrow> s1
             | Inr st \<Rightarrow> s1\<lparr>store := st\<rparr>))
      else s)"

text \<open>The updater of lines 217-227.\<close>

definition uiSnapshot :: "real \<Rightarrow> state \<Rightarrow> updater" where
  "uiSnapshot now s p =
     (let sessionSec = \<lfloor>(now - t0 s) / 1000\<rfloor>;
          intensity = clamp (1 + real_of_int (score s) / 800) 1 2.25
      in p\<lparr>ui_score := score s, ui_best := best s, ui_streak := streak s,
           ui_sessionSec := sessionSec, ui_intensity := intensity\<rparr>)"

definition flushUi :: "updater list \<Rightarrow> state \<Rightarrow> state" where
  "flushUi us s = s\<lparr>ui := foldl (\<lambda>p u. u p) (ui s) us\<rparr>"

text \<open>The refs as they are when the collision loop starts (lines 136-167).\<close>

definition preCollide :: "real \<Rightarrow> real \<Rightarrow> real \<Rightarrow> real \<Rightarrow> state \<Rightarrow> state" where
  "preCollide now dt r1 r2 s =
     advanceWaves dt (spawnStep r1 r2 (moveStep dt (dashStep dt (driftStep now dt (chargeStep dt s)))))"

text \<open>The branch \<open>ui.status === "LIVE"\<close>, lines 135-228.\<close>

definition tickLive :: "(real \<Rightarrow> string) \<Rightarrow> real \<Rightarrow> real \<Rightarrow> real \<Rightarrow> real \<Rightarrow> state \<Rightarrow> state" where
  "tickLive jsString now dt r1 r2 s =
     (let s1 = preCollide now dt r1 r2 s in
      case collide dt (waves s1) s1 of
        (s2, us) \<Rightarrow>
          (let s3 = updateBest jsString (prune s2)
           in flushUi (us @ [uiSnapshot now s3]) s3))"

text \<open>\<open>tick(now)\<close>, lines 131-231; \<open>r1\<close> and \<open>r2\<close> feed the two calls of \<open>spawnWave\<close>.\<close>

definition tick :: "(real \<Rightarrow> string) \<Rightarrow> real \<Rightarrow> real \<Rightarrow> real \<Rightarrow> state \<Rightarrow> state" where
  "tick jsString now r1 r2 s =
     (let dt = tick_dt now s;
          s1 = s\<lparr>lastT := now\<rparr>
      in if ui_status (ui s1) = LIVE then tickLive jsString now dt r1 r2 s1 else s1)"

subsection \<open>The component as a transition system\<close>

text \<open>
  The events the component receives: an animation frame (its timestamp and the two
  random numbers it may draw), a pointer-down (with the \<open>performance.now()\<close> that
  \<open>reset\<close> would read) and a pointer-up, -cancel or -leave.

  The effect that holds the main loop is declared with the dependency list
  \<open>[ui.status]\<close> (line 238), so React runs its body when the component mounts and
  again after every render in which \<open>ui.status\<close> has changed; the body starts with
  the load of the stored best (lines 125-129).
\<close>

datatype event = Tick real real real | HoldStart real | HoldEnd

definition handle :: "(real \<Rightarrow> string) \<Rightarrow> event \<Rightarrow> state \<Rightarrow> state" where
  "handle jsString e s =
     (case e of
        Tick now r1 r2 \<Rightarrow> tick jsString now r1 r2 s
      | HoldStart pnow \<Rightarrow> onHoldStart pnow s
      | HoldEnd \<Rightarrow> onHoldEnd s)"

definition step :: "(string \<Rightarrow> jsnum) \<Rightarrow> (real \<Rightarrow> string) \<Rightarrow> event \<Rightarrow> state \<Rightarrow> state" where
  "step jsNumber jsString e s =
     (let s1 = handle jsString e s
      in if ui_status (ui s1) \<noteq> ui_status (ui s) then loadBest jsNumber s1 else s1)"

definition mount :: "(string \<Rightarrow> jsnum) \<Rightarrow> real \<Rightarrow> storage \<Rightarrow> state" where
  "mount jsNumber pnow st = loadBest jsNumber (init pnow st)"

fun run :: "(string \<Rightarrow> jsnum) \<Rightarrow> (real \<Rightarrow> string) \<Rightarrow> event list \<Rightarrow> state \<Rightarrow> state" where
  "run jsNumber jsString [] s = s"
| "run jsNumber jsString (e # es) s = run jsNumber jsString es (step jsNumber jsString e s)"

subsection \<open>The declared ranges\<close>

definition inRange :: "real \<Rightarrow> real \<Rightarrow> real \<Rightarrow> bool" where
  "inRange a b x = (a \<le> x \<and> x \<le> b)"

definition wave_ok :: "wave \<Rightarrow> bool" where
  "wave_ok w = (inRange 0.12 0.26 (gapW w) \<and> inRange 0.35 1.15 (speed w))"

definition ranges_ok :: "state \<Rightarrow> bool" where
  "ranges_ok s =
     (inRange 0.06 0.94 (px s) \<and> inRange 0 1 (charge s) \<and> inRange 0 2 (dash s) \<and>
      list_all wave_ok (waves s))"

subsection \<open>The life of one wave\<close>

text \<open>
  What successive frames do to one wave: each frame advances it (lines 165-167), tests
  it for a crossing (line 172) and drops it once \<open>y\<close> is at or below -0.2
  (line 206). \<open>crossings dts w\<close> counts the frames, of durations \<open>dts\<close>, in which
  the test succeeds while the wave is in the field.
\<close>

fun crossings :: "real list \<Rightarrow> wave \<Rightarrow> nat" where
  "crossings [] w = 0"
| "crossings (dt # dts) w =
     (let w1 = advance dt w
      in (if crossing dt w1 then 1 else 0) + (if wy w1 > - 0.2 then crossings dts w1 else 0))"

subsection \<open>The clock\<close>

text \<open>
  The timestamps passed to \<open>requestAnimationFrame\<close> callbacks never decrease and are
  never negative: \<open>monotonic t es\<close> says so of the frames of \<open>es\<close>, \<open>t\<close> being the
  timestamp of the frame before.
\<close>

fun monotonic :: "real \<Rightarrow> event list \<Rightarrow> bool" where
  "monotonic t [] = True"
| "monotonic t (Tick now r1 r2 # es) = (t \<le> now \<and> monotonic now es)"
| "monotonic t (HoldStart pnow # es) = monotonic t es"
| "monotonic t (HoldEnd # es) = monotonic t es"

subsection \<open>Wave ids\<close>

definition ids_ok :: "state \<Rightarrow> bool" where
  "ids_ok s = (distinct (map wid (waves s)) \<and> list_all (\<lambda>w. wid w < waveId s) (waves s))"

subsection \<open>The spacing of the waves\<close>

text \<open>
  What keeps the waves of a run apart. A wave is uncrossed while it is above the band.
  \<open>time_gap a c\<close>: the later wave \<open>c\<close> has travelled for no longer than \<open>a\<close> has
  since \<open>a\<close> was at 0.65, the height below which the next wave is spawned.
  \<open>speed_ratio a c\<close>: while \<open>a\<close> is uncrossed, \<open>c\<close> is at most twice as fast.
  \<open>speed_cap n x\<close> is the speed \<open>spawnWave\<close> would give at the score reached from
  \<open>x\<close> by \<open>n\<close> hits, each of which takes \<open>x + 558\<close> to at most \<open>1.05 * (x + 558)\<close>;
  \<open>budget x n ws\<close> says that the \<open>i\<close>-th wave of \<open>ws\<close> has at least half the speed
  \<open>speed_cap (n + i) x\<close>.
\<close>

definition uncrossed :: "wave \<Rightarrow> bool" where
  "uncrossed w = (playerY < wy w)"

definition time_gap :: "wave \<Rightarrow> wave \<Rightarrow> bool" where
  "time_gap a c = ((1.15 - wy c) * speed a \<le> (0.65 - wy a) * speed c)"

definition speed_ratio :: "wave \<Rightarrow> wave \<Rightarrow> bool" where
  "speed_ratio a c = (uncrossed a \<longrightarrow> speed c \<le> 2 * speed a)"

definition speed_cap :: "nat \<Rightarrow> real \<Rightarrow> real" where
  "speed_cap n x = min 1.15 (0.35 + 0.00015 * (1.05 ^ n * (x + 558) - 558))"

fun budget :: "real \<Rightarrow> nat \<Rightarrow> wave list \<Rightarrow> bool" where
  "budget x n [] = True"
| "budget x n (w # ws) = (speed_cap n x \<le> 2 * speed w \<and> budget x (Suc n) ws)"

definition spaced :: "state \<Rightarrow> bool" where
  "spaced s =
     (0 \<le> streak s \<and> 18 * streak s \<le> score s \<and>
      list_all wave_ok (waves s) \<and> list_all (\<lambda>w. wy w \<le> 1.15) (waves s) \<and>
      sorted_wrt time_gap (waves s) \<and> sorted_wrt speed_ratio (waves s) \<and>
      budget (real_of_int (score s)) 0 (filter uncrossed (waves s)))"

subsection \<open>Concrete inputs\<close>

text \<open>A working, empty storage; a \<open>Number\<close> that reads the strings \<open>0\<close> and
  \<open>Infinity\<close> and nothing else; a \<open>String\<close> that prints nothing.\<close>

definition st0 :: storage where
  "st0 = \<lparr>item = None, getThrows = False, setThrows = False\<rparr>"

definition num0 :: "string \<Rightarrow> jsnum" where
  "num0 x = (if x = ''0'' then Fin 0 else if x = ''Infinity'' then PosInf else NaN)"

definition str0 :: "real \<Rightarrow> string" where
  "str0 r = []"

text \<open>A wave just above the player band, with the gap [0.4, 0.6].\<close>

definition w5 :: wave where
  "w5 = \<lparr>wid = 1, wy = 0.23, gapX = 0.5, gapW = 0.2, speed = 0.35\<rparr>"

text \<open>An empty storage that can be read but not written; one that cannot be reached
  at all; one that holds a string \<open>Number\<close> reads as infinite.\<close>

definition stFull :: storage where
  "stFull = \<lparr>item = None, getThrows = False, setThrows = True\<rparr>"

definition stDead :: storage where
  "stDead = \<lparr>item = None, getThrows = True, setThrows = True\<rparr>"

definition stInf :: storage where
  "stInf = \<lparr>item = Some ''Infinity'', getThrows = False, setThrows = False\<rparr>"

text \<open>
  A run in progress on a storage that cannot be written: one wave has been passed
  (score 18, best 18), the next is about to cross with its gap away from the player.
\<close>

definition sFail :: state where
  "sFail =
     \<lparr>lastT = 2000, t0 = 0, px = 0.5, vel = 0, dash = 0, charge = 0, alive = True,
      waves = [\<lparr>wid = 2, wy = 0.225, gapX = 0.15, gapW = 0.26, speed = 0.35\<rparr>,
               \<lparr>wid = 3, wy = 0.72, gapX = 0.5, gapW = 0.2492, speed = 0.3527\<rparr>],
      waveId = 4, score = 18, best = 18, streak = 1, hits = 1, nearMiss = 0,
      holding = False,
      ui = \<lparr>ui_score = 18, ui_best = 18, ui_streak = 1, ui_status = LIVE,
            ui_msg = ''RUN.'', ui_sessionSec = 2, ui_intensity = 1.0225\<rparr>,
      store = stFull\<rparr>"

subsection \<open>Outcomes of a frame\<close>

text \<open>
  The waves that, in a frame of duration \<open>dt\<close>, cross the band outside their gap and
  inside it, for the refs \<open>s\<close> the collision loop starts from; and the \<open>setUi\<close> calls
  the collision loop makes in a frame taken while the status is LIVE.
\<close>

definition missed :: "real \<Rightarrow> state \<Rightarrow> wave list" where
  "missed dt s = filter (\<lambda>w. crossing dt w \<and> \<not> inside (px s) w) (waves s)"

definition passed :: "real \<Rightarrow> state \<Rightarrow> wave list" where
  "passed dt s = filter (\<lambda>w. crossing dt w \<and> inside (px s) w) (waves s)"

definition downCalls :: "real \<Rightarrow> real \<Rightarrow> real \<Rightarrow> state \<Rightarrow> updater list" where
  "downCalls now r1 r2 s =
     (let dt = tick_dt now s;
          s1 = preCollide now dt r1 r2 (s\<lparr>lastT := now\<rparr>)
      in snd (collide dt (waves s1) s1))"

subsection \<open>A run that ends in a miss\<close>

text \<open>
  A pointer-down on the first render, then frames 33 ms apart from the timestamp 1, no
  random number above 0: the first wave is spawned with the gap [0.02, 0.28] and the
  speed 0.35, and falls 0.01155 in each frame but the first. \<open>convoy y ws\<close>: the
  first wave of \<open>ws\<close> is that wave, at height \<open>y\<close>, and the waves behind it are
  at least 0.5 higher, at the same speed. \<open>cruising n s\<close> is what holds of the state
  after the frame \<open>frameAt n\<close>: the run is live, nothing has been scored, and the
  player has drifted left by no more than 0.004 for each frame after the 75th.
  \<open>sMiss\<close> is the state after the 81 frames of \<open>missRun\<close>; the next frame brings the
  first wave across the band.
\<close>

definition convoy :: "real \<Rightarrow> wave list \<Rightarrow> bool" where
  "convoy y ws =
     (ws \<noteq> [] \<and> wy (hd ws) = y \<and> speed (hd ws) = 0.35 \<and> gapX (hd ws) = 0.15 \<and>
      gapW (hd ws) = 0.26 \<and> list_all (\<lambda>v. y + 0.5 \<le> wy v \<and> speed v = 0.35) (tl ws))"

definition cruising :: "nat \<Rightarrow> state \<Rightarrow> bool" where
  "cruising n s =
     (ui_status (ui s) = LIVE \<and> lastT s = 1 + 33 * real n \<and> dash s = 0 \<and> score s = 0 \<and>
      - (0.00066 * real (n - 75)) \<le> vel s \<and> 0.5 - 0.004 * real (n - 75) \<le> px s \<and>
      convoy (1.15 - 0.01155 * real n) (waves s))"

definition frameAt :: "nat \<Rightarrow> event" where
  "frameAt k = Tick (1 + 33 * real k) 0 0"

definition missRun :: "event list" where
  "missRun = HoldStart 5 # map frameAt [0..<81]"

definition sHeld :: state where
  "sHeld = step num0 str0 (HoldStart 5) (mount num0 0 st0)"

definition sMiss :: state where
  "sMiss = run num0 str0 missRun (mount num0 0 st0)"

section \<open>Reset\<close>

text \<open>
  C6. After \<open>reset\<close>, from any state: score, streak, hits, nearMisses, dash and charge
  are 0, the player is alive at position 0.5, the wave field is empty, the status is
  LIVE, and best keeps the value it had before.
\<close>

theorem reset_restores:
  "score (reset m t s) = 0 \<and> streak (reset m t s) = 0 \<and> hits (reset m t s) = 0 \<and>
   nearMiss (reset m t s) = 0 \<and> dash (reset m t s) = 0 \<and> charge (reset m t s) = 0 \<and>
   alive (reset m t s) \<and> px (reset m t s) = 0.5 \<and> waves (reset m t s) = [] \<and>
   ui_status (ui (reset m t s)) = LIVE \<and> best (reset m t s) = best s"
  by (simp add: reset_def)

section \<open>What the collision loop leaves alone\<close>

lemma inRange_zero: "a \<le> 0 \<Longrightarrow> 0 \<le> b \<Longrightarrow> inRange a b 0"
  by (simp add: inRange_def)

lemma inRange_clamp: "a \<le> b \<Longrightarrow> inRange a b (clamp n a b)"
  unfolding clamp_def inRange_def by linarith

lemma inRange_clamp_wider: "a \<le> b \<Longrightarrow> c \<le> a \<Longrightarrow> b \<le> d \<Longrightarrow> inRange c d (clamp n a b)"
  unfolding clamp_def inRange_def by linarith

lemma resolveWave_frame:
  "px (fst (resolveWave dt w s)) = px s \<and> dash (fst (resolveWave dt w s)) = dash s \<and>
   charge (fst (resolveWave dt w s)) = charge s \<and> waves (fst (resolveWave dt w s)) = waves s \<and>
   best (fst (resolveWave dt w s)) = best s \<and> store (fst (resolveWave dt w s)) = store s \<and>
   ui (fst (resolveWave dt w s)) = ui s \<and> vel (fst (resolveWave dt w s)) = vel s \<and>
   lastT (fst (resolveWave dt w s)) = lastT s \<and> t0 (fst (resolveWave dt w s)) = t0 s \<and>
   waveId (fst (resolveWave dt w s)) = waveId s \<and> holding (fst (resolveWave dt w s)) = holding s"
  by (simp add: resolveWave_def hitWave_def Let_def)

lemma collide_frame:
  "px (fst (collide dt ws s)) = px s \<and> dash (fst (collide dt ws s)) = dash s \<and>
   charge (fst (collide dt ws s)) = charge s \<and> waves (fst (collide dt ws s)) = waves s \<and>
   best (fst (collide dt ws s)) = best s \<and> store (fst (collide dt ws s)) = store s \<and>
   ui (fst (collide dt ws s)) = ui s \<and> vel (fst (collide dt ws s)) = vel s \<and>
   lastT (fst (collide dt ws s)) = lastT s \<and> t0 (fst (collide dt ws s)) = t0 s \<and>
   waveId (fst (collide dt ws s)) = waveId s \<and> holding (fst (collide dt ws s)) = holding s"
proof (induction ws arbitrary: s)
  case Nil
  show ?case by simp
next
  case (Cons w ws)
  obtain s1 us1 where r: "resolveWave dt w s = (s1, us1)" by (cases "resolveWave dt w s")
  obtain s2 us2 where c: "collide dt ws s1 = (s2, us2)" by (cases "collide dt ws s1")
  have f1: "s1 = fst (resolveWave dt w s)" using r by simp
  have f2: "s2 = fst (collide dt ws s1)" using c by simp
  have "fst (collide dt (w # ws) s) = s2" using r c by simp
  then show ?case using Cons.IH [of s1] resolveWave_frame [of dt w s] f1 f2 by simp
qed

section \<open>What a frame leaves alone\<close>

lemma chargeStep_frame:
  "lastT (chargeStep dt s) = lastT s \<and>
   t0 (chargeStep dt s) = t0 s \<and>
   px (chargeStep dt s) = px s \<and>
   vel (chargeStep dt s) = vel s \<and>
   dash (chargeStep dt s) = dash s \<and>
   alive (chargeStep dt s) = alive s \<and>
   waves (chargeStep dt s) = waves s \<and>
   waveId (chargeStep dt s) = waveId s \<and>
   score (chargeStep dt s) = score s \<and>
   best (chargeStep dt s) = best s \<and>
   streak (chargeStep dt s) = streak s \<and>
   hits (chargeStep dt s) = hits s \<and>
   nearMiss (chargeStep dt s) = nearMiss s \<and>
   holding (chargeStep dt s) = holding s \<and>
   ui (chargeStep dt s) = ui s \<and>
   store (chargeStep dt s) = store s"
  by (simp add: chargeStep_def)

lemma driftStep_frame:
  "lastT (driftStep now dt s) = lastT s \<and>
   t0 (driftStep now dt s) = t0 s \<and>
   px (driftStep now dt s) = px s \<and>
   dash (driftStep now dt s) = dash s \<and>
   charge (driftStep now dt s) = charge s \<and>
   alive (driftStep now dt s) = alive s \<and>
   waves (driftStep now dt s) = waves s \<and>
   waveId (driftStep now dt s) = waveId s \<and>
   score (driftStep now dt s) = score s \<and>
   best (driftStep now dt s) = best s \<and>
   streak (driftStep now dt s) = streak s \<and>
   hits (driftStep now dt s) = hits s \<and>
   nearMiss (driftStep now dt s) = nearMiss s \<and>
   holding (driftStep now dt s) = holding s \<and>
   ui (driftStep now dt s) = ui s \<and>
   store (driftStep now dt s) = store s"
  by (simp add: driftStep_def Let_def)

lemma dashStep_frame:
  "lastT (dashStep dt s) = lastT s \<and>
   t0 (dashStep dt s) = t0 s \<and>
   px (dashStep dt s) = px s \<and>
   charge (dashStep dt s) = charge s \<and>
   alive (dashStep dt s) = alive s \<and>
   waves (dashStep dt s) = waves s \<and>
   waveId (dashStep dt s) = waveId s \<and>
   score (dashStep dt s) = score s \<and>
   best (dashStep dt s) = best s \<and>
   streak (dashStep dt s) = streak s \<and>
   hits (dashStep dt s) = hits s \<and>
   nearMiss (dashStep dt s) = nearMiss s \<and>
   holding (dashStep dt s) = holding s \<and>
   ui (dashStep dt s) = ui s \<and>
   store (dashStep dt s) = store s"
  by (simp add: dashStep_def Let_def)

lemma moveStep_frame:
  "lastT (moveStep dt s) = lastT s \<and>
   t0 (moveStep dt s) = t0 s \<and>
   dash (moveStep dt s) = dash s \<and>
   charge (moveStep dt s) = charge s \<and>
   alive (moveStep dt s) = alive s \<and>
   waves (moveStep dt s) = waves s \<and>
   waveId (moveStep dt s) = waveId s \<and>
   score (moveStep dt s) = score s \<and>
   best (moveStep dt s) = best s \<and>
   streak (moveStep dt s) = streak s \<and>
   hits (moveStep dt s) = hits s \<and>
   nearMiss (moveStep dt s) = nearMiss s \<and>
   holding (moveStep dt s) = holding s \<and>
   ui (moveStep dt s) = ui s \<and>
   store (moveStep dt s) = store s"
  by (simp add: moveStep_def Let_def)

lemma spawnWave_frame:
  "lastT (spawnWave r s) = lastT s \<and>
   t0 (spawnWave r s) = t0 s \<and>
   px (spawnWave r s) = px s \<and>
   vel (spawnWave r s) = vel s \<and>
   dash (spawnWave r s) = dash s \<and>
   charge (spawnWave r s) = charge s \<and>
   alive (spawnWave r s) = alive s \<and>
   score (spawnWave r s) = score s \<and>
   best (spawnWave r s) = best s \<and>
   streak (spawnWave r s) = streak s \<and>
   hits (spawnWave r s) = hits s \<and>
   nearMiss (spawnWave r s) = nearMiss s \<and>
   holding (spawnWave r s) = holding s \<and>
   ui (spawnWave r s) = ui s \<and>
   store (spawnWave r s) = store s"
  by (simp add: spawnWave_def Let_def)

lemma spawnStep_frame:
  "lastT (spawnStep r1 r2 s) = lastT s \<and>
   t0 (spawnStep r1 r2 s) = t0 s \<and>
   px (spawnStep r1 r2 s) = px s \<and>
   vel (spawnStep r1 r2 s) = vel s \<and>
   dash (spawnStep r1 r2 s) = dash s \<and>
   charge (spawnStep r1 r2 s) = charge s \<and>
   alive (spawnStep r1 r2 s) = alive s \<and>
   score (spawnStep r1 r2 s) = score s \<and>
   best (spawnStep r1 r2 s) = best s \<and>
   streak (spawnStep r1 r2 s) = streak s \<and>
   hits (spawnStep r1 r2 s) = hits s \<and>
   nearMiss (spawnStep r1 r2 s) = nearMiss s \<and>
   holding (spawnStep r1 r2 s) = holding s \<and>
   ui (spawnStep r1 r2 s) = ui s \<and>
   store (spawnStep r1 r2 s) = store s"
  by (simp add: spawnStep_def Let_def spawnWave_frame)

lemma advanceWaves_frame:
  "lastT (advanceWaves dt s) = lastT s \<and>
   t0 (advanceWaves dt s) = t0 s \<and>
   px (advanceWaves dt s) = px s \<and>
   vel (advanceWaves dt s) = vel s \<and>
   dash (advanceWaves dt s) = dash s \<and>
   charge (advanceWaves dt s) = charge s \<and>
   alive (advanceWaves dt s) = alive s \<and>
   waveId (advanceWaves dt s) = waveId s \<and>
   score (advanceWaves dt s) = score s \<and>
   best (advanceWaves dt s) = best s \<and>
   streak (advanceWaves dt s) = streak s \<and>
   hits (advanceWaves dt s) = hits s \<and>
   nearMiss (advanceWaves dt s) = nearMiss s \<and>
   holding (advanceWaves dt s) = holding s \<and>
   ui (advanceWaves dt s) = ui s \<and>
   store (advanceWaves dt s) = store s"
  by (simp add: advanceWaves_def)

lemma dashStep_dash:
  "dash (dashStep dt s) = (if dash s > 0 then clamp (dash s - dt * 1.6) 0 2 else dash s)"
  by (simp add: dashStep_def Let_def)

lemma spawnStep_waves_frame:
  "waves (spawnStep r1 r2 (moveStep dt (dashStep dt (driftStep now dt (chargeStep dt s))))) =
     waves (spawnStep r1 r2 s) \<and>
   waveId (spawnStep r1 r2 (moveStep dt (dashStep dt (driftStep now dt (chargeStep dt s))))) =
     waveId (spawnStep r1 r2 s)"
  by (simp add: spawnStep_def spawnWave_def Let_def moveStep_frame dashStep_frame driftStep_frame
      chargeStep_frame)

lemma preCollide_frame:
  "lastT (preCollide now dt r1 r2 s) = lastT s \<and> t0 (preCollide now dt r1 r2 s) = t0 s \<and>
   charge (preCollide now dt r1 r2 s) = charge (chargeStep dt s) \<and>
   dash (preCollide now dt r1 r2 s) = dash (dashStep dt s) \<and>
   alive (preCollide now dt r1 r2 s) = alive s \<and> score (preCollide now dt r1 r2 s) = score s \<and>
   best (preCollide now dt r1 r2 s) = best s \<and> streak (preCollide now dt r1 r2 s) = streak s \<and>
   hits (preCollide now dt r1 r2 s) = hits s \<and> nearMiss (preCollide now dt r1 r2 s) = nearMiss s \<and>
   holding (preCollide now dt r1 r2 s) = holding s \<and> ui (preCollide now dt r1 r2 s) = ui s \<and>
   store (preCollide now dt r1 r2 s) = store s \<and>
   waves (preCollide now dt r1 r2 s) = map (advance dt) (waves (spawnStep r1 r2 s)) \<and>
   waveId (preCollide now dt r1 r2 s) = waveId (spawnStep r1 r2 s)"
  by (simp add: preCollide_def advanceWaves_frame spawnStep_frame moveStep_frame dashStep_frame
      driftStep_frame chargeStep_frame spawnStep_waves_frame advanceWaves_def dashStep_dash)

lemma post_frame:
  "lastT (flushUi us (updateBest jsS (prune s))) = lastT s \<and>
   t0 (flushUi us (updateBest jsS (prune s))) = t0 s \<and>
   px (flushUi us (updateBest jsS (prune s))) = px s \<and>
   vel (flushUi us (updateBest jsS (prune s))) = vel s \<and>
   dash (flushUi us (updateBest jsS (prune s))) = dash s \<and>
   charge (flushUi us (updateBest jsS (prune s))) = charge s \<and>
   alive (flushUi us (updateBest jsS (prune s))) = alive s \<and>
   waves (flushUi us (updateBest jsS (prune s))) = filter (\<lambda>w. wy w > - 0.2) (waves s) \<and>
   waveId (flushUi us (updateBest jsS (prune s))) = waveId s \<and>
   score (flushUi us (updateBest jsS (prune s))) = score s \<and>
   streak (flushUi us (updateBest jsS (prune s))) = streak s \<and>
   hits (flushUi us (updateBest jsS (prune s))) = hits s \<and>
   nearMiss (flushUi us (updateBest jsS (prune s))) = nearMiss s \<and>
   holding (flushUi us (updateBest jsS (prune s))) = holding s"
  by (simp add: flushUi_def updateBest_def prune_def Let_def split: sum.splits)

lemma tickLive_unfold:
  "tickLive jsS now dt r1 r2 s =
     flushUi (snd (collide dt (waves (preCollide now dt r1 r2 s)) (preCollide now dt r1 r2 s)) @
              [uiSnapshot now (updateBest jsS (prune (fst (collide dt (waves (preCollide now dt r1 r2 s)) (preCollide now dt r1 r2 s)))))])
       (updateBest jsS (prune (fst (collide dt (waves (preCollide now dt r1 r2 s)) (preCollide now dt r1 r2 s)))))"
  by (simp add: tickLive_def Let_def split: prod.splits)

lemma tickLive_frame:
  "lastT (tickLive jsS now dt r1 r2 s) = lastT s \<and>
   dash (tickLive jsS now dt r1 r2 s) = dash (dashStep dt s) \<and>
   charge (tickLive jsS now dt r1 r2 s) = charge (chargeStep dt s) \<and>
   holding (tickLive jsS now dt r1 r2 s) = holding s \<and>
   waves (tickLive jsS now dt r1 r2 s) =
     filter (\<lambda>w. wy w > - 0.2) (map (advance dt) (waves (spawnStep r1 r2 s))) \<and>
   waveId (tickLive jsS now dt r1 r2 s) = waveId (spawnStep r1 r2 s)"
  unfolding tickLive_unfold
  using post_frame [of _ jsS "fst (collide dt (waves (preCollide now dt r1 r2 s)) (preCollide now dt r1 r2 s))"]
    collide_frame [of dt "waves (preCollide now dt r1 r2 s)" "preCollide now dt r1 r2 s"]
    preCollide_frame [of now dt r1 r2 s]
  by simp

lemma tick_idle: "ui_status (ui s) \<noteq> LIVE \<Longrightarrow> tick jsS now r1 r2 s = s\<lparr>lastT := now\<rparr>"
  by (simp add: tick_def Let_def)

lemma tick_live:
  "ui_status (ui s) = LIVE \<Longrightarrow>
   tick jsS now r1 r2 s = tickLive jsS now (tick_dt now s) r1 r2 (s\<lparr>lastT := now\<rparr>)"
  by (simp add: tick_def Let_def)

lemma tick_lastT: "lastT (tick jsS now r1 r2 s) = now"
  using tickLive_frame [of jsS now "tick_dt now s" r1 r2 "s\<lparr>lastT := now\<rparr>"]
  by (simp add: tick_def Let_def)

lemma loadBest_frame:
  "dash (loadBest jsN s) = dash s \<and> lastT (loadBest jsN s) = lastT s \<and>
   waves (loadBest jsN s) = waves s \<and> waveId (loadBest jsN s) = waveId s \<and>
   ui_status (ui (loadBest jsN s)) = ui_status (ui s)"
  by (simp add: loadBest_def Let_def split: sum.splits)

section \<open>The clamped ranges\<close>

lemma wave_ok_advance: "wave_ok (advance dt w) = wave_ok w"
  by (simp add: wave_ok_def advance_def)

lemma ranges_ok_spawnWave: "ranges_ok s \<Longrightarrow> ranges_ok (spawnWave r s)"
  by (simp add: ranges_ok_def spawnWave_def Let_def wave_ok_def inRange_clamp inRange_clamp_wider)

lemma ranges_ok_spawnStep: "ranges_ok s \<Longrightarrow> ranges_ok (spawnStep r1 r2 s)"
  by (simp add: spawnStep_def Let_def ranges_ok_spawnWave)

lemma ranges_ok_chargeStep: "ranges_ok s \<Longrightarrow> ranges_ok (chargeStep dt s)"
  by (simp add: ranges_ok_def chargeStep_def inRange_clamp inRange_clamp_wider)

lemma ranges_ok_driftStep: "ranges_ok s \<Longrightarrow> ranges_ok (driftStep now dt s)"
  by (simp add: ranges_ok_def driftStep_def)

lemma ranges_ok_dashStep: "ranges_ok s \<Longrightarrow> ranges_ok (dashStep dt s)"
  by (simp add: ranges_ok_def dashStep_def Let_def inRange_clamp inRange_clamp_wider)

lemma ranges_ok_moveStep: "ranges_ok s \<Longrightarrow> ranges_ok (moveStep dt s)"
  by (simp add: ranges_ok_def moveStep_def Let_def inRange_clamp inRange_clamp_wider)

lemma ranges_ok_advanceWaves: "ranges_ok s \<Longrightarrow> ranges_ok (advanceWaves dt s)"
  by (simp add: ranges_ok_def advanceWaves_def list_all_iff wave_ok_advance)

lemma ranges_ok_preCollide: "ranges_ok s \<Longrightarrow> ranges_ok (preCollide now dt r1 r2 s)"
  unfolding preCollide_def
  by (intro ranges_ok_advanceWaves ranges_ok_spawnStep ranges_ok_moveStep ranges_ok_dashStep
      ranges_ok_driftStep ranges_ok_chargeStep)

lemma ranges_ok_collide: "ranges_ok s \<Longrightarrow> ranges_ok (fst (collide dt ws s))"
  using collide_frame [of dt ws s] by (simp add: ranges_ok_def)

lemma ranges_ok_prune: "ranges_ok s \<Longrightarrow> ranges_ok (prune s)"
  by (simp add: ranges_ok_def prune_def list_all_iff)

lemma ranges_ok_updateBest: "ranges_ok s \<Longrightarrow> ranges_ok (updateBest jsS s)"
  by (simp add: ranges_ok_def updateBest_def Let_def split: sum.splits)

lemma ranges_ok_flushUi: "ranges_ok s \<Longrightarrow> ranges_ok (flushUi us s)"
  by (simp add: ranges_ok_def flushUi_def)

lemma ranges_ok_tickLive: "ranges_ok s \<Longrightarrow> ranges_ok (tickLive jsS now dt r1 r2 s)"
proof -
  assume a: "ranges_ok s"
  let ?s1 = "preCollide now dt r1 r2 s"
  obtain s2 us where c: "collide dt (waves ?s1) ?s1 = (s2, us)" by (cases "collide dt (waves ?s1) ?s1")
  have "ranges_ok (fst (collide dt (waves ?s1) ?s1))"
    by (rule ranges_ok_collide [OF ranges_ok_preCollide [OF a]])
  then have "ranges_ok s2" using c by simp
  then have "ranges_ok (flushUi (us @ [uiSnapshot now (updateBest jsS (prune s2))]) (updateBest jsS (prune s2)))"
    by (intro ranges_ok_flushUi ranges_ok_updateBest ranges_ok_prune)
  then show ?thesis using c by (simp add: tickLive_def Let_def)
qed

lemma ranges_ok_tick: "ranges_ok s \<Longrightarrow> ranges_ok (tick jsS now r1 r2 s)"
proof -
  assume a: "ranges_ok s"
  then have "ranges_ok (s\<lparr>lastT := now\<rparr>)" by (simp add: ranges_ok_def)
  then show ?thesis using ranges_ok_tickLive by (simp add: tick_def Let_def)
qed

lemma ranges_ok_reset: "ranges_ok (reset m t s)"
  by (simp add: ranges_ok_def reset_def inRange_def)

lemma ranges_ok_onHoldStart: "ranges_ok s \<Longrightarrow> ranges_ok (onHoldStart t s)"
  using ranges_ok_reset [of "Some ''RUN.''" t s]
  by (simp add: onHoldStart_def Let_def ranges_ok_def)

lemma ranges_ok_onHoldEnd: "ranges_ok s \<Longrightarrow> ranges_ok (onHoldEnd s)"
  by (simp add: onHoldEnd_def Let_def ranges_ok_def inRange_clamp inRange_clamp_wider inRange_zero)

lemma ranges_ok_loadBest: "ranges_ok s \<Longrightarrow> ranges_ok (loadBest jsN s)"
  by (simp add: loadBest_def Let_def ranges_ok_def split: sum.splits)

lemma ranges_ok_step: "ranges_ok s \<Longrightarrow> ranges_ok (step jsN jsS e s)"
  by (cases e) (simp_all add: step_def handle_def Let_def ranges_ok_tick ranges_ok_onHoldStart
      ranges_ok_onHoldEnd ranges_ok_loadBest)

lemma ranges_ok_run: "ranges_ok s \<Longrightarrow> ranges_ok (run jsN jsS es s)"
  by (induction es arbitrary: s) (simp_all add: ranges_ok_step)

lemma ranges_ok_mount: "ranges_ok (mount jsN t st)"
  unfolding mount_def by (rule ranges_ok_loadBest) (simp add: ranges_ok_def init_def inRange_def)

text \<open>
  C1. From the mounted component, after any sequence of frames and pointer events, the
  position is in [0.06, 0.94], the charge in [0, 1], the dash in [0, 2], and every wave
  of the field has its gap width in [0.12, 0.26] and its speed in [0.35, 1.15].
\<close>

theorem clamped_ranges: "ranges_ok (run jsN jsS es (mount jsN t st))"
  by (rule ranges_ok_run [OF ranges_ok_mount])

theorem clamped_ranges_witness:
  "length (waves (run num0 str0 [HoldStart 5, Tick 16 0.5 0.5] (mount num0 0 st0))) = 1 \<and>
   ranges_ok (run num0 str0 [HoldStart 5, Tick 16 0.5 0.5] (mount num0 0 st0))"
proof -
  let ?m = "mount num0 0 st0"
  let ?h = "step num0 str0 (HoldStart 5) ?m"
  have m: "ui_status (ui ?m) = READY \<and> lastT ?m = 0"
    by (simp add: mount_def loadBest_def getItem_def st0_def init_def num0_def Let_def)
  have hh: "handle str0 (HoldStart 5) ?m = (reset (Some ''RUN.'') 5 ?m)\<lparr>holding := True\<rparr>"
    using m by (simp add: handle_def onHoldStart_def Let_def)
  have h: "ui_status (ui ?h) = LIVE \<and> lastT ?h = 0 \<and> waves ?h = []"
    using m unfolding step_def hh Let_def
    by (simp add: loadBest_frame reset_def)
  have w: "length (waves (tickLive str0 16 (tick_dt 16 ?h) 0.5 0.5 (?h\<lparr>lastT := 16\<rparr>))) = 1"
    using h tickLive_frame [of str0 16 "tick_dt 16 ?h" "0.5" "0.5" "?h\<lparr>lastT := 16\<rparr>"]
    by (simp add: tick_dt_def spawnStep_def spawnWave_def Let_def advance_def)
  have l: "tick str0 16 0.5 0.5 ?h = tickLive str0 16 (tick_dt 16 ?h) 0.5 0.5 (?h\<lparr>lastT := 16\<rparr>)"
    using h by (simp add: tick_live)
  have "waves (step num0 str0 (Tick 16 0.5 0.5) ?h) = waves (tick str0 16 0.5 0.5 ?h)"
    by (simp add: step_def handle_def Let_def loadBest_frame)
  then have "length (waves (run num0 str0 [HoldStart 5, Tick 16 0.5 0.5] ?m)) = 1"
    using w l by simp
  then show ?thesis using clamped_ranges [of num0 str0 "[HoldStart 5, Tick 16 0.5 0.5]" 0 st0] by simp
qed

section \<open>A wave crosses once\<close>

text \<open>
  A frame turns the field into the advanced waves that stay above -0.2
  (\<open>tickLive_frame\<close>), and the loop leaves the refs alone for a wave that fails the
  crossing test.
\<close>

lemma resolveWave_skip: "\<not> crossing dt w \<Longrightarrow> resolveWave dt w s = (s, [])"
  by (simp add: resolveWave_def)

lemma crossing_advance:
  "crossing dt (advance dt w) = (wy w - dt * speed w \<le> playerY \<and> playerY < wy w)"
  by (auto simp: crossing_def advance_def)

lemma crossings_below:
  "list_all (\<lambda>dt. 0 \<le> dt) dts \<Longrightarrow> 0 \<le> speed w \<Longrightarrow> wy w \<le> playerY \<Longrightarrow> crossings dts w = 0"
proof (induction dts arbitrary: w)
  case Nil
  show ?case by simp
next
  case (Cons dt dts)
  have d: "0 \<le> dt" and r: "list_all (\<lambda>dt. 0 \<le> dt) dts" using Cons.prems(1) by simp_all
  have m: "0 \<le> dt * speed w" using d Cons.prems(2) by simp
  have n: "\<not> crossing dt (advance dt w)" using Cons.prems(3) by (simp add: crossing_advance)
  have "wy (advance dt w) \<le> playerY" using m Cons.prems(3) by (simp add: advance_def)
  moreover have "0 \<le> speed (advance dt w)" using Cons.prems(2) by (simp add: advance_def)
  ultimately have "crossings dts (advance dt w) = 0" using Cons.IH r by blast
  then show ?case using n by (simp add: Let_def)
qed

lemma crossings_rising:
  "list_all (\<lambda>dt. 0 \<le> dt) dts \<Longrightarrow> speed w < 0 \<Longrightarrow> crossings dts w = 0"
proof (induction dts arbitrary: w)
  case Nil
  show ?case by simp
next
  case (Cons dt dts)
  have d: "0 \<le> dt" and r: "list_all (\<lambda>dt. 0 \<le> dt) dts" using Cons.prems(1) by simp_all
  have m: "dt * speed w \<le> 0" using d Cons.prems(2) by (simp add: mult_nonneg_nonpos)
  have n: "\<not> crossing dt (advance dt w)" using m by (simp add: crossing_advance)
  have "speed (advance dt w) < 0" using Cons.prems(2) by (simp add: advance_def)
  then have "crossings dts (advance dt w) = 0" using Cons.IH r by blast
  then show ?case using n by (simp add: Let_def)
qed

text \<open>
  C5. Over the life of a wave the crossing test succeeds in at most one frame, whatever
  the durations of the frames, as long as none is negative.
\<close>

theorem crossing_at_most_once:
  "list_all (\<lambda>dt. 0 \<le> dt) dts \<Longrightarrow> crossings dts w \<le> 1"
proof (induction dts arbitrary: w)
  case Nil
  show ?case by simp
next
  case (Cons dt dts)
  have r: "list_all (\<lambda>dt. 0 \<le> dt) dts" using Cons.prems by simp
  show ?case
  proof (cases "speed w < 0")
    case True
    then show ?thesis using crossings_rising [OF Cons.prems True] by simp
  next
    case False
    then have sp: "0 \<le> speed (advance dt w)" by (simp add: advance_def)
    show ?thesis
    proof (cases "crossing dt (advance dt w)")
      case True
      then have "wy (advance dt w) \<le> playerY" by (simp add: crossing_def)
      then have "crossings dts (advance dt w) = 0" using crossings_below [OF r sp] by simp
      then show ?thesis by (simp add: Let_def)
    next
      case False
      then show ?thesis using Cons.IH [OF r, of "advance dt w"] by (simp add: Let_def)
    qed
  qed
qed

theorem crossing_at_most_once_witness:
  "list_all (\<lambda>dt. 0 \<le> dt) [0.033, 0.033 :: real] \<and> crossings [0.033, 0.033] w5 = 1 \<and>
   crossings [0.033, 0.033] w5 \<le> 1"
proof -
  have h: "list_all (\<lambda>dt. 0 \<le> dt) [0.033, 0.033 :: real]" by simp
  have "crossings [0.033, 0.033] w5 = 1"
    by (simp add: w5_def Let_def advance_def crossing_def playerY_def)
  then show ?thesis using h crossing_at_most_once [OF h, of w5] by simp
qed

lemma tick_dt_nonneg: "lastT s = 0 \<or> lastT s \<le> now \<Longrightarrow> 0 \<le> tick_dt now s"
  by (auto simp: tick_dt_def)

section \<open>The dash never exceeds 1.6\<close>

lemma dashStep_cap: "0 \<le> dt \<Longrightarrow> inRange 0 1.6 (dash s) \<Longrightarrow> inRange 0 1.6 (dash (dashStep dt s))"
proof -
  assume d: "0 \<le> dt" and i: "inRange 0 1.6 (dash s)"
  have "0 \<le> dt * 1.6" using d by simp
  then have "inRange 0 1.6 (clamp (dash s - dt * 1.6) 0 2)"
    using i unfolding inRange_def clamp_def by linarith
  then show ?thesis using i by (simp add: dashStep_def Let_def)
qed

lemma tick_dash_cap:
  "lastT s \<le> now \<Longrightarrow> inRange 0 1.6 (dash s) \<Longrightarrow> inRange 0 1.6 (dash (tick jsS now r1 r2 s))"
proof -
  assume m: "lastT s \<le> now" and i: "inRange 0 1.6 (dash s)"
  have d: "0 \<le> tick_dt now s" using m by (rule_tac tick_dt_nonneg) simp
  have "inRange 0 1.6 (dash (dashStep (tick_dt now s) (s\<lparr>lastT := now\<rparr>)))"
    using dashStep_cap [OF d, of "s\<lparr>lastT := now\<rparr>"] i by simp
  then show ?thesis
    using tickLive_frame [of jsS now "tick_dt now s" r1 r2 "s\<lparr>lastT := now\<rparr>"] i
    by (simp add: tick_def Let_def)
qed

lemma step_dash_cap:
  "monotonic (lastT s) (e # es) \<Longrightarrow> inRange 0 1.6 (dash s) \<Longrightarrow>
   inRange 0 1.6 (dash (step jsN jsS e s)) \<and> monotonic (lastT (step jsN jsS e s)) es"
proof (cases e)
  case (Tick now r1 r2)
  assume m: "monotonic (lastT s) (e # es)" and i: "inRange 0 1.6 (dash s)"
  have "lastT s \<le> now" "monotonic now es" using m Tick by simp_all
  then show ?thesis using Tick tick_dash_cap [of s now jsS r1 r2] i tick_lastT [of jsS now r1 r2 s]
    by (simp add: step_def handle_def Let_def loadBest_frame)
next
  case (HoldStart pnow)
  assume m: "monotonic (lastT s) (e # es)" and i: "inRange 0 1.6 (dash s)"
  show ?thesis using HoldStart m i
    by (simp add: step_def handle_def Let_def loadBest_frame onHoldStart_def reset_def inRange_zero)
next
  case HoldEnd
  assume m: "monotonic (lastT s) (e # es)" and i: "inRange 0 1.6 (dash s)"
  show ?thesis using HoldEnd m i
    by (simp add: step_def handle_def Let_def loadBest_frame onHoldEnd_def inRange_clamp)
qed

lemma run_dash_cap:
  "monotonic (lastT s) es \<Longrightarrow> inRange 0 1.6 (dash s) \<Longrightarrow> inRange 0 1.6 (dash (run jsN jsS es s))"
proof (induction es arbitrary: s)
  case Nil
  then show ?case by simp
next
  case (Cons e es)
  then show ?case using step_dash_cap [of s e es jsN jsS] by simp
qed

text \<open>
  C9. From the mounted component, after any sequence of frames and pointer events
  whose timestamps never decrease, the dash is in [0, 1.6].
\<close>

theorem dash_cap:
  "monotonic 0 es \<Longrightarrow> inRange 0 1.6 (dash (run jsN jsS es (mount jsN t st)))"
proof -
  assume m: "monotonic 0 es"
  have a: "lastT (mount jsN t st) = 0" "dash (mount jsN t st) = 0"
    by (simp_all add: mount_def loadBest_frame init_def)
  have "inRange 0 1.6 (dash (mount jsN t st))" using a by (simp add: inRange_zero)
  then show ?thesis using run_dash_cap [of "mount jsN t st" es jsN jsS] m a by simp
qed

theorem dash_cap_witness:
  "monotonic 0 [HoldStart 5, Tick 16 0.5 0.5, HoldEnd, Tick 33 0.5 0.5] \<and>
   inRange 0 1.6 (dash (run num0 str0 [HoldStart 5, Tick 16 0.5 0.5, HoldEnd, Tick 33 0.5 0.5]
                         (mount num0 0 st0)))"
proof -
  have m: "monotonic 0 [HoldStart 5, Tick 16 0.5 0.5, HoldEnd, Tick 33 0.5 0.5]" by simp
  show ?thesis using m dash_cap [OF m] by simp
qed

section \<open>Releasing twice\<close>

lemma clamp_step_fixed:
  "0 \<le> d \<Longrightarrow> d \<le> 1.6 \<Longrightarrow> (clamp (d + 0.35) 0 1.6 = d) = (d = 1.6)"
  unfolding clamp_def max_def min_def by (auto split: if_splits)

text \<open>
  C3, as the code has it. \<open>onHoldEnd\<close> has no test of \<open>holdingRef\<close>: a
  second call changes nothing but the dash, to which, if the player is alive, it adds
  the base impulse 0.35 again (clamped at 1.6). Two calls equal one exactly when the
  player is not alive or the dash already stands at 1.6.
\<close>

theorem holdEnd_twice:
  "onHoldEnd (onHoldEnd s) =
     (onHoldEnd s)\<lparr>dash := (if alive s then clamp (dash (onHoldEnd s) + 0.35) 0 1.6
                              else dash (onHoldEnd s))\<rparr> \<and>
   (onHoldEnd (onHoldEnd s) = onHoldEnd s) = (\<not> alive s \<or> dash (onHoldEnd s) = 1.6)"
proof -
  have a: "alive (onHoldEnd s) = alive s" "charge (onHoldEnd s) = 0"
    "holding (onHoldEnd s) = False"
    by (simp_all add: onHoldEnd_def Let_def)
  have "alive s \<Longrightarrow> inRange 0 1.6 (dash (onHoldEnd s))"
    by (simp add: onHoldEnd_def Let_def inRange_clamp)
  then have r: "alive s \<Longrightarrow> 0 \<le> dash (onHoldEnd s) \<and> dash (onHoldEnd s) \<le> 1.6"
    by (simp only: inRange_def)
  have e: "onHoldEnd (onHoldEnd s) =
     (onHoldEnd s)\<lparr>dash := (if alive s then clamp (dash (onHoldEnd s) + 0.35) 0 1.6
                              else dash (onHoldEnd s))\<rparr>"
    by (simp add: onHoldEnd_def Let_def)
  have d: "dash (onHoldEnd (onHoldEnd s)) =
      (if alive s then clamp (dash (onHoldEnd s) + 0.35) 0 1.6 else dash (onHoldEnd s))"
    by (subst e) simp
  have "(onHoldEnd (onHoldEnd s) = onHoldEnd s) = (\<not> alive s \<or> dash (onHoldEnd s) = 1.6)"
  proof (cases "alive s")
    case False
    then show ?thesis using e by simp
  next
    case True
    show ?thesis
    proof
      assume "onHoldEnd (onHoldEnd s) = onHoldEnd s"
      then have "clamp (dash (onHoldEnd s) + 0.35) 0 1.6 = dash (onHoldEnd s)"
        using d True by simp
      then show "\<not> alive s \<or> dash (onHoldEnd s) = 1.6"
        using r [OF True] clamp_step_fixed [of "dash (onHoldEnd s)"] by simp
    next
      assume "\<not> alive s \<or> dash (onHoldEnd s) = 1.6"
      then have "dash (onHoldEnd s) = 1.6" using True by simp
      then have "clamp (dash (onHoldEnd s) + 0.35) 0 1.6 = dash (onHoldEnd s)"
        using r [OF True] clamp_step_fixed [of "dash (onHoldEnd s)"] by simp
      then show "onHoldEnd (onHoldEnd s) = onHoldEnd s" using e True by simp
    qed
  qed
  with e show ?thesis by simp
qed

text \<open>
  C3 as stated fails on the state of the first render, where nothing is held: the first
  \<open>onHoldEnd\<close> leaves a dash of 0.35, the second one of 0.7.
\<close>

theorem holdEnd_not_idempotent:
  "\<not> holding (init 0 st0) \<and> dash (onHoldEnd (init 0 st0)) = 0.35 \<and>
   dash (onHoldEnd (onHoldEnd (init 0 st0))) = 0.7 \<and>
   onHoldEnd (onHoldEnd (init 0 st0)) \<noteq> onHoldEnd (init 0 st0)"
proof -
  have a: "dash (onHoldEnd (init 0 st0)) = 0.35"
    by (simp add: onHoldEnd_def init_def Let_def clamp_def)
  have b: "dash (onHoldEnd (onHoldEnd (init 0 st0))) = 0.7"
    by (simp add: onHoldEnd_def init_def Let_def clamp_def)
  have "onHoldEnd (onHoldEnd (init 0 st0)) \<noteq> onHoldEnd (init 0 st0)"
  proof
    assume "onHoldEnd (onHoldEnd (init 0 st0)) = onHoldEnd (init 0 st0)"
    then have "dash (onHoldEnd (onHoldEnd (init 0 st0))) = dash (onHoldEnd (init 0 st0))" by simp
    then show False using a b by simp
  qed
  then show ?thesis using a b by (simp add: init_def)
qed

theorem holdEnd_twice_witness:
  "onHoldEnd (onHoldEnd ((init 0 st0)\<lparr>alive := False\<rparr>)) = onHoldEnd ((init 0 st0)\<lparr>alive := False\<rparr>) \<and>
   dash (onHoldEnd (onHoldEnd (init 0 st0))) = clamp (dash (onHoldEnd (init 0 st0)) + 0.35) 0 1.6"
proof -
  have a: "\<not> alive ((init 0 st0)\<lparr>alive := False\<rparr>)" by simp
  have b: "alive (init 0 st0)" by (simp add: init_def)
  have "dash (onHoldEnd (onHoldEnd (init 0 st0))) = dash ((onHoldEnd (init 0 st0))\<lparr>dash := (if alive (init 0 st0) then clamp (dash (onHoldEnd (init 0 st0)) + 0.35) 0 1.6
                              else dash (onHoldEnd (init 0 st0)))\<rparr>)"
    using holdEnd_twice [of "init 0 st0"] by simp
  then show ?thesis using holdEnd_twice [of "(init 0 st0)\<lparr>alive := False\<rparr>"] a b by simp
qed

section \<open>A crossing near the edge of the gap\<close>

text \<open>
  C7. A wave with gap centre 0.5 and gap width 0.2 crosses while the player is at 0.41,
  with score 0 and streak 0 (and no near miss so far): the iteration takes the success
  branch with the near-miss bonus, so the score becomes 27 = 9 + 18 + floor(1 * 0.9), the
  streak 1 and the near-miss counter 1; one more hit is counted, nothing else changes
  and no \<open>setUi\<close> is issued.
\<close>

theorem near_miss_hit:
  "crossing dt w \<Longrightarrow> gapX w = 0.5 \<Longrightarrow> gapW w = 0.2 \<Longrightarrow> px s = 0.41 \<Longrightarrow>
   score s = 0 \<Longrightarrow> streak s = 0 \<Longrightarrow> nearMiss s = 0 \<Longrightarrow>
   resolveWave dt w s = (s\<lparr>score := 27, streak := 1, hits := hits s + 1, nearMiss := 1\<rparr>, [])"
  by (simp add: resolveWave_def inside_def gapLeft_def gapRight_def hitWave_def Let_def)

theorem near_miss_hit_witness:
  "crossing 0.033 (advance 0.033 w5) \<and>
   resolveWave 0.033 (advance 0.033 w5) ((init 0 st0)\<lparr>px := 0.41\<rparr>) =
     ((init 0 st0)\<lparr>px := 0.41, score := 27, streak := 1, hits := 1, nearMiss := 1\<rparr>, [])"
proof -
  have c: "crossing 0.033 (advance 0.033 w5)"
    by (simp add: w5_def advance_def crossing_def playerY_def)
  show ?thesis
    using c near_miss_hit [OF c, of "(init 0 st0)\<lparr>px := 0.41\<rparr>"]
    by (simp add: w5_def advance_def init_def)
qed

section \<open>Reset, in full\<close>

lemma ids_ok_spawnWave: "ids_ok s \<Longrightarrow> ids_ok (spawnWave r s)"
  by (auto simp: ids_ok_def spawnWave_def Let_def list_all_iff)

lemma ids_ok_spawnStep: "ids_ok s \<Longrightarrow> ids_ok (spawnStep r1 r2 s)"
  by (simp add: spawnStep_def Let_def ids_ok_spawnWave)

lemma wid_advance: "map wid (map (advance dt) ws) = map wid ws"
  by (induction ws) (simp_all add: advance_def)

lemma ids_ok_tickLive: "ids_ok s \<Longrightarrow> ids_ok (tickLive jsS now dt r1 r2 s)"
proof -
  assume "ids_ok s"
  then have a: "ids_ok (spawnStep r1 r2 s)" by (rule ids_ok_spawnStep)
  have "distinct (map wid (map (advance dt) (waves (spawnStep r1 r2 s))))"
    using a by (simp only: wid_advance ids_ok_def)
  then have d: "distinct (map wid (filter (\<lambda>w. wy w > - 0.2) (map (advance dt) (waves (spawnStep r1 r2 s)))))"
    by (rule distinct_map_filter)
  have "list_all (\<lambda>w. wid w < waveId (spawnStep r1 r2 s)) (map (advance dt) (waves (spawnStep r1 r2 s)))"
    using a by (simp add: ids_ok_def list_all_iff advance_def)
  then have "list_all (\<lambda>w. wid w < waveId (spawnStep r1 r2 s))
       (filter (\<lambda>w. wy w > - 0.2) (map (advance dt) (waves (spawnStep r1 r2 s))))"
    by (auto simp: list_all_iff)
  then show ?thesis using d tickLive_frame [of jsS now dt r1 r2 s] by (simp add: ids_ok_def)
qed

lemma ids_ok_tick: "ids_ok s \<Longrightarrow> ids_ok (tick jsS now r1 r2 s)"
proof -
  assume "ids_ok s"
  then have "ids_ok (s\<lparr>lastT := now\<rparr>)" by (simp add: ids_ok_def)
  then show ?thesis using ids_ok_tickLive by (simp add: tick_def Let_def)
qed

lemma ids_ok_step: "ids_ok s \<Longrightarrow> ids_ok (step jsN jsS e s)"
proof -
  assume a: "ids_ok s"
  have l: "\<And>x. ids_ok x \<Longrightarrow> ids_ok (loadBest jsN x)"
    using loadBest_frame by (simp add: ids_ok_def)
  have "ids_ok (handle jsS e s)"
  proof (cases e)
    case (Tick now r1 r2)
    then show ?thesis using ids_ok_tick [OF a] by (simp add: handle_def)
  next
    case (HoldStart pnow)
    then show ?thesis using a by (simp add: handle_def onHoldStart_def reset_def ids_ok_def Let_def)
  next
    case HoldEnd
    then show ?thesis using a by (simp add: handle_def onHoldEnd_def ids_ok_def Let_def)
  qed
  then show ?thesis using l by (simp add: step_def Let_def)
qed

lemma ids_ok_run: "ids_ok s \<Longrightarrow> ids_ok (run jsN jsS es s)"
  by (induction es arbitrary: s) (simp_all add: ids_ok_step)

lemma ids_ok_mount: "ids_ok (mount jsN t st)"
  using loadBest_frame [of jsN "init t st"] by (simp add: mount_def ids_ok_def init_def)

text \<open>
  C10. \<open>reset\<close> also zeroes the velocity and sets the wave id counter back to 1,
  and leaves \<open>holdingRef\<close> as it was. The state after \<open>reset\<close> is determined by
  the message, the clock and what \<open>reset\<close> does not write: \<open>lastRef\<close>, \<open>bestRef\<close>,
  \<open>holdingRef\<close>, the displayed best and the storage. The first wave spawned after a
  \<open>reset\<close> has id 1 again, while the ids of the waves in the field are distinct in
  every state the mounted component reaches.
\<close>

theorem reset_determined:
  "reset m t s =
     \<lparr>lastT = lastT s, t0 = t, px = 0.5, vel = 0, dash = 0, charge = 0, alive = True,
      waves = [], waveId = 1, score = 0, best = best s, streak = 0, hits = 0, nearMiss = 0,
      holding = holding s,
      ui = \<lparr>ui_score = 0, ui_best = ui_best (ui s), ui_streak = 0, ui_status = LIVE,
            ui_msg = (case m of Some x \<Rightarrow> x | None \<Rightarrow> ''Flow state: breathe, charge, dash.''),
            ui_sessionSec = 0, ui_intensity = 1\<rparr>,
      store = store s\<rparr> \<and>
   vel (reset m t s) = 0 \<and> waveId (reset m t s) = 1 \<and> holding (reset m t s) = holding s \<and>
   map wid (waves (spawnWave r (reset m t s))) = [1] \<and>
   distinct (map wid (waves (run jsN jsS es (mount jsN t' st))))"
proof -
  have "ids_ok (run jsN jsS es (mount jsN t' st))" by (rule ids_ok_run [OF ids_ok_mount])
  then have d: "distinct (map wid (waves (run jsN jsS es (mount jsN t' st))))"
    by (simp add: ids_ok_def)
  have e: "reset m t s =
     \<lparr>lastT = lastT s, t0 = t, px = 0.5, vel = 0, dash = 0, charge = 0, alive = True,
      waves = [], waveId = 1, score = 0, best = best s, streak = 0, hits = 0, nearMiss = 0,
      holding = holding s,
      ui = \<lparr>ui_score = 0, ui_best = ui_best (ui s), ui_streak = 0, ui_status = LIVE,
            ui_msg = (case m of Some x \<Rightarrow> x | None \<Rightarrow> ''Flow state: breathe, charge, dash.''),
            ui_sessionSec = 0, ui_intensity = 1\<rparr>,
      store = store s\<rparr>"
    by (simp add: reset_def)
  have "map wid (waves (spawnWave r (reset m t s))) = [1]"
    by (simp add: spawnWave_def reset_def Let_def)
  then show ?thesis using d e by (simp add: reset_def)
qed

section \<open>The outcome of the collision loop\<close>

text \<open>With no dash and no velocity, one frame moves the player by the drift alone.\<close>

lemma damping_le_one: "0 \<le> dt \<Longrightarrow> (0.08::real) powr dt \<le> 1"
  using powr_mono' [of 0 dt "0.08::real"] by simp

lemma clamp_near:
  "inRange a b p \<Longrightarrow> \<bar>clamp (p + v) a b - p\<bar> \<le> \<bar>v\<bar>"
  unfolding inRange_def clamp_def by linarith

lemma preCollide_px:
  "px (preCollide now dt r1 r2 s) = px (moveStep dt (dashStep dt (driftStep now dt (chargeStep dt s))))"
  by (simp add: preCollide_def advanceWaves_frame spawnStep_frame)

lemma preCollide_px_near:
  assumes dt: "0 \<le> dt" and d: "dash s = 0" and v: "vel s = 0" and p: "inRange 0.06 0.94 (px s)"
  shows "\<bar>px (preCollide now dt r1 r2 s) - px s\<bar> \<le> 0.02 * dt"
proof -
  let ?x = "driftStep now dt (chargeStep dt s)"
  have dx: "dash ?x = 0" using d by (simp add: driftStep_frame chargeStep_frame)
  have ds: "dashStep dt ?x = ?x" using dx by (simp add: dashStep_def)
  have vx: "vel ?x = sin (now * 0.0012) * 0.02 * dt"
    using v by (simp add: driftStep_def Let_def chargeStep_frame)
  have px: "px ?x = px s" by (simp add: driftStep_frame chargeStep_frame)
  let ?v = "vel ?x * (0.08 powr dt)"
  have m: "px (moveStep dt ?x) = clamp (px s + ?v) 0.06 0.94"
    by (simp add: moveStep_def Let_def px)
  have "\<bar>sin (now * 0.0012)\<bar> \<le> 1" by simp
  then have "\<bar>sin (now * 0.0012)\<bar> * (0.02 * dt) \<le> 1 * (0.02 * dt)"
    using dt by (intro mult_right_mono) simp_all
  then have a: "\<bar>vel ?x\<bar> \<le> 0.02 * dt" using dt by (simp add: vx abs_mult)
  have "0 \<le> (0.08::real) powr dt" by simp
  then have "\<bar>?v\<bar> = \<bar>vel ?x\<bar> * (0.08 powr dt)" by (simp add: abs_mult)
  also have "\<dots> \<le> \<bar>vel ?x\<bar> * 1"
    using damping_le_one [OF dt] by (intro mult_left_mono) simp_all
  finally have b: "\<bar>?v\<bar> \<le> 0.02 * dt" using a by simp
  have "\<bar>clamp (px s + ?v) 0.06 0.94 - px s\<bar> \<le> \<bar>?v\<bar>" by (rule clamp_near [OF p])
  then show ?thesis using b by (simp add: preCollide_px ds m)
qed

lemma collide_calls:
  "snd (collide dt ws s) =
     replicate (length (filter (\<lambda>w. crossing dt w \<and> \<not> inside (px s) w) ws)) uiDown"
proof (induction ws arbitrary: s)
  case Nil
  show ?case by simp
next
  case (Cons w ws)
  obtain s1 us1 where r: "resolveWave dt w s = (s1, us1)" by (cases "resolveWave dt w s")
  have p: "px s1 = px s" using resolveWave_frame [of dt w s] r by simp
  have u: "us1 = (if crossing dt w \<and> \<not> inside (px s) w then [uiDown] else [])"
    using r by (auto simp: resolveWave_def split: if_splits)
  have "snd (collide dt (w # ws) s) = us1 @ snd (collide dt ws s1)"
    using r by (simp split: prod.splits)
  then show ?case using Cons.IH [of s1] p u by simp
qed

lemma collide_hits:
  "hits (fst (collide dt ws s)) =
     hits s + int (length (filter (\<lambda>w. crossing dt w \<and> inside (px s) w) ws))"
proof (induction ws arbitrary: s)
  case Nil
  show ?case by simp
next
  case (Cons w ws)
  obtain s1 us1 where r: "resolveWave dt w s = (s1, us1)" by (cases "resolveWave dt w s")
  have p: "px s1 = px s" using resolveWave_frame [of dt w s] r by simp
  have h: "hits s1 = hits s + (if crossing dt w \<and> inside (px s) w then 1 else 0)"
    using r by (auto simp: resolveWave_def hitWave_def Let_def split: if_splits)
  have "fst (collide dt (w # ws) s) = fst (collide dt ws s1)"
    using r by (simp split: prod.splits)
  then show ?case using Cons.IH [of s1] p h by simp
qed

lemma collide_alive:
  "alive (fst (collide dt ws s)) =
     (alive s \<and> filter (\<lambda>w. crossing dt w \<and> \<not> inside (px s) w) ws = [])"
proof (induction ws arbitrary: s)
  case Nil
  show ?case by simp
next
  case (Cons w ws)
  obtain s1 us1 where r: "resolveWave dt w s = (s1, us1)" by (cases "resolveWave dt w s")
  have p: "px s1 = px s" using resolveWave_frame [of dt w s] r by simp
  have h: "alive s1 = (alive s \<and> \<not> (crossing dt w \<and> \<not> inside (px s) w))"
    using r by (auto simp: resolveWave_def hitWave_def Let_def split: if_splits)
  have "fst (collide dt (w # ws) s) = fst (collide dt ws s1)"
    using r by (simp split: prod.splits)
  then show ?case using Cons.IH [of s1] p h by auto
qed

lemma foldl_uiDown:
  "ui_status (foldl (\<lambda>p u. u p) p (replicate n uiDown)) = (if n = 0 then ui_status p else DOWN)"
proof (induction n arbitrary: p)
  case 0
  show ?case by simp
next
  case (Suc n)
  have "ui_status (uiDown p) = DOWN" by (simp add: uiDown_def)
  then show ?case using Suc.IH [of "uiDown p"] by simp
qed

lemma tickLive_outcome:
  assumes "s1 = preCollide now dt r1 r2 s"
  shows "ui_status (ui (tickLive jsS now dt r1 r2 s)) = (if missed dt s1 = [] then ui_status (ui s) else DOWN) \<and>
         alive (tickLive jsS now dt r1 r2 s) = (alive s \<and> missed dt s1 = []) \<and>
         hits (tickLive jsS now dt r1 r2 s) = hits s + int (length (passed dt s1)) \<and>
         snd (collide dt (waves s1) s1) = replicate (length (missed dt s1)) uiDown"
proof -
  let ?c = "collide dt (waves s1) s1"
  let ?y = "updateBest jsS (prune (fst ?c))"
  have t: "tickLive jsS now dt r1 r2 s = flushUi (snd ?c @ [uiSnapshot now ?y]) ?y"
    using assms by (simp only: tickLive_unfold)
  have calls: "snd ?c = replicate (length (missed dt s1)) uiDown"
    by (simp add: collide_calls missed_def)
  have uy: "ui ?y = ui s"
    using collide_frame [of dt "waves s1" s1] preCollide_frame [of now dt r1 r2 s] assms
    by (simp add: updateBest_def prune_def Let_def split: sum.splits)
  have "ui_status (ui (tickLive jsS now dt r1 r2 s)) =
        ui_status (foldl (\<lambda>p u. u p) (ui s) (replicate (length (missed dt s1)) uiDown))"
    by (simp add: t flushUi_def calls uy uiSnapshot_def Let_def)
  then have 1: "ui_status (ui (tickLive jsS now dt r1 r2 s)) =
        (if missed dt s1 = [] then ui_status (ui s) else DOWN)"
    by (simp add: foldl_uiDown)
  have "alive (tickLive jsS now dt r1 r2 s) = alive (fst ?c)"
    using post_frame [of "snd ?c @ [uiSnapshot now ?y]" jsS "fst ?c"] by (simp add: t)
  then have 2: "alive (tickLive jsS now dt r1 r2 s) = (alive s \<and> missed dt s1 = [])"
    using preCollide_frame [of now dt r1 r2 s] assms by (simp add: collide_alive missed_def)
  have "hits (tickLive jsS now dt r1 r2 s) = hits (fst ?c)"
    using post_frame [of "snd ?c @ [uiSnapshot now ?y]" jsS "fst ?c"] by (simp add: t)
  then have 3: "hits (tickLive jsS now dt r1 r2 s) = hits s + int (length (passed dt s1))"
    using preCollide_frame [of now dt r1 r2 s] assms by (simp add: collide_hits passed_def)
  show ?thesis using 1 2 3 calls by simp
qed

lemma near_half:
  assumes "s1 = preCollide now 0.033 r1 r2 s" and "dash s = 0" and "vel s = 0" and "px s = 0.5"
  shows "0.49 \<le> px s1 \<and> px s1 \<le> 0.51"
proof -
  have p: "inRange 0.06 0.94 (px s)" using assms(4) by (simp add: inRange_def)
  have "\<bar>px (preCollide now 0.033 r1 r2 s) - px s\<bar> \<le> 0.02 * 0.033"
    by (rule preCollide_px_near [OF _ assms(2) assms(3) p]) simp
  then have "px s1 - 0.5 \<le> 0.02 * 0.033 \<and> - (px s1 - 0.5) \<le> 0.02 * 0.033"
    by (simp only: assms(1) assms(4) abs_le_iff)
  then show ?thesis by simp
qed

lemma collide_score_idle:
  "filter (\<lambda>w. crossing dt w \<and> inside (px s) w) ws = [] \<Longrightarrow> score (fst (collide dt ws s)) = score s"
proof (induction ws arbitrary: s)
  case Nil
  show ?case by simp
next
  case (Cons w ws)
  obtain s1 us1 where r: "resolveWave dt w s = (s1, us1)" by (cases "resolveWave dt w s")
  have n: "\<not> (crossing dt w \<and> inside (px s) w)" using Cons.prems by (auto split: if_splits)
  have p: "px s1 = px s" using resolveWave_frame [of dt w s] r by simp
  have h: "score s1 = score s"
    using r n by (auto simp: resolveWave_def split: if_splits)
  have f: "filter (\<lambda>w. crossing dt w \<and> inside (px s1) w) ws = []"
    using Cons.prems n by (simp add: p)
  have "fst (collide dt (w # ws) s) = fst (collide dt ws s1)"
    using r by (simp split: prod.splits)
  then show ?case using Cons.IH [OF f] h by simp
qed

lemma tickLive_score_idle:
  assumes "s1 = preCollide now dt r1 r2 s" and "passed dt s1 = []"
  shows "score (tickLive jsS now dt r1 r2 s) = score s"
proof -
  let ?c = "collide dt (waves s1) s1"
  let ?y = "updateBest jsS (prune (fst ?c))"
  have t: "tickLive jsS now dt r1 r2 s = flushUi (snd ?c @ [uiSnapshot now ?y]) ?y"
    using assms(1) by (simp only: tickLive_unfold)
  have "score (tickLive jsS now dt r1 r2 s) = score (fst ?c)"
    using post_frame [of "snd ?c @ [uiSnapshot now ?y]" jsS "fst ?c"] by (simp add: t)
  then show ?thesis
    using collide_score_idle [of dt s1 "waves s1"] assms preCollide_frame [of now dt r1 r2 s]
    by (simp add: passed_def)
qed

lemma sFail_frame:
  assumes "s = sFail\<lparr>best := b\<rparr>" and "s1 = preCollide 2033 0.033 0.5 0.5 (s\<lparr>lastT := 2033\<rparr>)"
  shows "tick_dt 2033 s = 0.033 \<and> ui_status (ui s) = LIVE \<and>
         length (missed 0.033 s1) = 1 \<and> passed 0.033 s1 = []"
proof -
  have dt: "tick_dt 2033 s = 0.033" by (simp add: tick_dt_def sFail_def assms(1))
  have live: "ui_status (ui s) = LIVE" by (simp add: sFail_def assms(1))
  have p: "0.49 \<le> px s1 \<and> px s1 \<le> 0.51"
    by (rule near_half [OF assms(2)]) (simp_all add: sFail_def assms(1))
  have w: "waves s1 =
     [\<lparr>wid = 2, wy = 0.225 - 0.033 * 0.35, gapX = 0.15, gapW = 0.26, speed = 0.35\<rparr>,
      \<lparr>wid = 3, wy = 0.72 - 0.033 * 0.3527, gapX = 0.5, gapW = 0.2492, speed = 0.3527\<rparr>]"
    using preCollide_frame [of 2033 "0.033" "0.5" "0.5" "s\<lparr>lastT := 2033\<rparr>"]
    by (simp add: assms spawnStep_def Let_def sFail_def advance_def)
  have m: "length (missed 0.033 s1) = 1"
    using p by (simp add: missed_def w crossing_def playerY_def inside_def gapLeft_def gapRight_def)
  have h: "passed 0.033 s1 = []"
    using p by (simp add: passed_def w crossing_def playerY_def inside_def gapLeft_def gapRight_def)
  show ?thesis using dt live m h by simp
qed

section \<open>Storage failures\<close>

lemma stage_store:
  "chargeStep dt (s\<lparr>store := a\<rparr>) = (chargeStep dt s)\<lparr>store := a\<rparr>"
  "driftStep now dt (s\<lparr>store := a\<rparr>) = (driftStep now dt s)\<lparr>store := a\<rparr>"
  "dashStep dt (s\<lparr>store := a\<rparr>) = (dashStep dt s)\<lparr>store := a\<rparr>"
  "moveStep dt (s\<lparr>store := a\<rparr>) = (moveStep dt s)\<lparr>store := a\<rparr>"
  "spawnWave r (s\<lparr>store := a\<rparr>) = (spawnWave r s)\<lparr>store := a\<rparr>"
  "advanceWaves dt (s\<lparr>store := a\<rparr>) = (advanceWaves dt s)\<lparr>store := a\<rparr>"
  by (simp_all add: chargeStep_def driftStep_def dashStep_def moveStep_def spawnWave_def
      advanceWaves_def Let_def)

lemma spawnStep_store:
  "spawnStep r1 r2 (s\<lparr>store := a\<rparr>) = (spawnStep r1 r2 s)\<lparr>store := a\<rparr>"
  by (simp add: spawnStep_def Let_def stage_store)

lemma preCollide_store:
  "preCollide now dt r1 r2 (s\<lparr>store := a\<rparr>) = (preCollide now dt r1 r2 s)\<lparr>store := a\<rparr>"
  by (simp add: preCollide_def stage_store spawnStep_store)

lemma resolveWave_store:
  "resolveWave dt w (s\<lparr>store := a\<rparr>) =
     ((fst (resolveWave dt w s))\<lparr>store := a\<rparr>, snd (resolveWave dt w s))"
  by (simp add: resolveWave_def hitWave_def Let_def)

lemma collide_store:
  "collide dt ws (s\<lparr>store := a\<rparr>) = ((fst (collide dt ws s))\<lparr>store := a\<rparr>, snd (collide dt ws s))"
proof (induction ws arbitrary: s)
  case Nil
  show ?case by simp
next
  case (Cons w ws)
  obtain s1 us1 where r: "resolveWave dt w s = (s1, us1)" by (cases "resolveWave dt w s")
  obtain s2 us2 where c: "collide dt ws s1 = (s2, us2)" by (cases "collide dt ws s1")
  have r': "resolveWave dt w (s\<lparr>store := a\<rparr>) = (s1\<lparr>store := a\<rparr>, us1)"
    using r by (simp add: resolveWave_store)
  have c': "collide dt ws (s1\<lparr>store := a\<rparr>) = (s2\<lparr>store := a\<rparr>, us2)"
    using c by (simp add: Cons.IH)
  show ?case by (simp add: r c r' c')
qed

lemma updateBest_store:
  "(updateBest jsS (s\<lparr>store := a\<rparr>))\<lparr>store := b\<rparr> = (updateBest jsS s)\<lparr>store := b\<rparr>"
  by (simp add: updateBest_def setItem_def Let_def)

lemma uiSnapshot_cong:
  "s\<lparr>store := b\<rparr> = s'\<lparr>store := b\<rparr> \<Longrightarrow> uiSnapshot now s = uiSnapshot now s'"
proof -
  assume e: "s\<lparr>store := b\<rparr> = s'\<lparr>store := b\<rparr>"
  have "score (s\<lparr>store := b\<rparr>) = score (s'\<lparr>store := b\<rparr>)"
    "best (s\<lparr>store := b\<rparr>) = best (s'\<lparr>store := b\<rparr>)"
    "streak (s\<lparr>store := b\<rparr>) = streak (s'\<lparr>store := b\<rparr>)"
    "t0 (s\<lparr>store := b\<rparr>) = t0 (s'\<lparr>store := b\<rparr>)"
    using e by simp_all
  then have "score s = score s'" "best s = best s'" "streak s = streak s'" "t0 s = t0 s'"
    by simp_all
  then show ?thesis by (intro ext) (simp add: uiSnapshot_def)
qed

lemma flushUi_store:
  "s\<lparr>store := b\<rparr> = s'\<lparr>store := b\<rparr> \<Longrightarrow> (flushUi us s)\<lparr>store := b\<rparr> = (flushUi us s')\<lparr>store := b\<rparr>"
proof -
  assume e: "s\<lparr>store := b\<rparr> = s'\<lparr>store := b\<rparr>"
  have "ui (s\<lparr>store := b\<rparr>) = ui (s'\<lparr>store := b\<rparr>)" using e by simp
  then have u: "ui s = ui s'" by simp
  have "(flushUi us s)\<lparr>store := b\<rparr> = (s\<lparr>store := b\<rparr>)\<lparr>ui := foldl (\<lambda>p u. u p) (ui s) us\<rparr>"
    by (simp add: flushUi_def)
  also have "\<dots> = (s'\<lparr>store := b\<rparr>)\<lparr>ui := foldl (\<lambda>p u. u p) (ui s') us\<rparr>"
    using e u by simp
  also have "\<dots> = (flushUi us s')\<lparr>store := b\<rparr>" by (simp add: flushUi_def)
  finally show ?thesis .
qed

lemma prune_store: "prune (s\<lparr>store := a\<rparr>) = (prune s)\<lparr>store := a\<rparr>"
  by (simp add: prune_def)

lemma tickLive_store:
  "(tickLive jsS now dt r1 r2 (s\<lparr>store := a\<rparr>))\<lparr>store := b\<rparr> = (tickLive jsS now dt r1 r2 s)\<lparr>store := b\<rparr>"
proof -
  let ?s1 = "preCollide now dt r1 r2 s"
  let ?c = "collide dt (waves ?s1) ?s1"
  let ?x = "updateBest jsS (prune ((fst ?c)\<lparr>store := a\<rparr>))"
  let ?y = "updateBest jsS (prune (fst ?c))"
  have e: "?x\<lparr>store := b\<rparr> = ?y\<lparr>store := b\<rparr>"
    by (simp add: prune_store updateBest_store)
  have l: "tickLive jsS now dt r1 r2 (s\<lparr>store := a\<rparr>) = flushUi (snd ?c @ [uiSnapshot now ?x]) ?x"
    by (simp add: tickLive_unfold preCollide_store collide_store)
  have "(flushUi (snd ?c @ [uiSnapshot now ?x]) ?x)\<lparr>store := b\<rparr> =
        (flushUi (snd ?c @ [uiSnapshot now ?x]) ?y)\<lparr>store := b\<rparr>"
    by (rule flushUi_store [OF e])
  also have "\<dots> = (flushUi (snd ?c @ [uiSnapshot now ?y]) ?y)\<lparr>store := b\<rparr>"
    using uiSnapshot_cong [OF e, of now] by simp
  finally have "(tickLive jsS now dt r1 r2 (s\<lparr>store := a\<rparr>))\<lparr>store := b\<rparr> =
      (flushUi (snd ?c @ [uiSnapshot now ?y]) ?y)\<lparr>store := b\<rparr>"
    by (simp only: l)
  then show ?thesis by (simp only: tickLive_unfold [of jsS now dt r1 r2 s])
qed

lemma tick_store:
  "(tick jsS now r1 r2 (s\<lparr>store := a\<rparr>))\<lparr>store := b\<rparr> = (tick jsS now r1 r2 s)\<lparr>store := b\<rparr>"
proof (cases "ui_status (ui s) = LIVE")
  case True
  have d: "tick_dt now (s\<lparr>store := a\<rparr>) = tick_dt now s" by (simp add: tick_dt_def)
  have u: "s\<lparr>store := a, lastT := now\<rparr> = s\<lparr>lastT := now, store := a\<rparr>" by simp
  have "ui_status (ui (s\<lparr>store := a\<rparr>)) = LIVE" using True by simp
  then have l: "tick jsS now r1 r2 (s\<lparr>store := a\<rparr>) =
           tickLive jsS now (tick_dt now s) r1 r2 ((s\<lparr>lastT := now\<rparr>)\<lparr>store := a\<rparr>)"
    by (simp only: tick_live d u)
  have r: "tick jsS now r1 r2 s = tickLive jsS now (tick_dt now s) r1 r2 (s\<lparr>lastT := now\<rparr>)"
    using True by (rule tick_live)
  show ?thesis unfolding l r by (rule tickLive_store)
next
  case False
  then show ?thesis by (simp add: tick_idle)
qed

lemma updateBest_best:
  "best (updateBest jsS s) = max (best s) (real_of_int (score s)) \<and>
   score (updateBest jsS s) = score s"
  by (simp add: updateBest_def Let_def max_def split: sum.splits)

lemma updateBest_setThrows:
  "setThrows (store s) \<Longrightarrow> store (updateBest jsS s) = store s"
  by (simp add: updateBest_def setItem_def Let_def)

lemma tickLive_best:
  "best (tickLive jsS now dt r1 r2 s) = max (best s) (real_of_int (score (tickLive jsS now dt r1 r2 s)))"
proof -
  let ?s1 = "preCollide now dt r1 r2 s"
  let ?c = "fst (collide dt (waves ?s1) ?s1)"
  have b: "best (prune ?c) = best s"
    using collide_frame [of dt "waves ?s1" ?s1] preCollide_frame [of now dt r1 r2 s]
    by (simp add: prune_def)
  have "best (tickLive jsS now dt r1 r2 s) = best (updateBest jsS (prune ?c))"
    by (simp add: tickLive_unfold flushUi_def)
  moreover have "score (tickLive jsS now dt r1 r2 s) = score (updateBest jsS (prune ?c))"
    by (simp add: tickLive_unfold flushUi_def)
  ultimately show ?thesis using updateBest_best [of jsS "prune ?c"] b by simp
qed

lemma tickLive_setThrows:
  "setThrows (store s) \<Longrightarrow> store (tickLive jsS now dt r1 r2 s) = store s"
proof -
  assume t: "setThrows (store s)"
  let ?s1 = "preCollide now dt r1 r2 s"
  let ?c = "fst (collide dt (waves ?s1) ?s1)"
  have b: "store (prune ?c) = store s"
    using collide_frame [of dt "waves ?s1" ?s1] preCollide_frame [of now dt r1 r2 s]
    by (simp add: prune_def)
  have "store (tickLive jsS now dt r1 r2 s) = store (updateBest jsS (prune ?c))"
    by (simp add: tickLive_unfold flushUi_def)
  then show ?thesis using updateBest_setThrows [of "prune ?c" jsS] b t by simp
qed

text \<open>
  C8. No failure of the storage leaves the two places that use it. Reading: when the
  key is missing (and \<open>Number\<close> reads the string \<open>0\<close> as 0), or holds a string
  \<open>Number\<close> reads as not finite, the best becomes 0; when \<open>getItem\<close> throws, the
  state is as it was. Writing: when \<open>setItem\<close> throws, the frame leaves the storage as
  it was; whatever the storage holds or does, the frame computes the same state apart
  from the storage; and after a live frame the best in memory is the larger of the old
  best and the score.
\<close>

theorem persistence_failures:
  "(jsNumber ''0'' = Fin 0 \<and> getItem (store s) = Inr None \<longrightarrow> best (loadBest jsNumber s) = 0) \<and>
   (getItem (store s) = Inr (Some x) \<and> \<not> isFinite (jsNumber x) \<longrightarrow> best (loadBest jsNumber s) = 0) \<and>
   (getItem (store s) = Inl e \<longrightarrow> loadBest jsNumber s = s) \<and>
   (setThrows (store s) \<longrightarrow> store (tick jsString now r1 r2 s) = store s) \<and>
   (tick jsString now r1 r2 (s\<lparr>store := a\<rparr>))\<lparr>store := b\<rparr> = (tick jsString now r1 r2 s)\<lparr>store := b\<rparr> \<and>
   (ui_status (ui s) = LIVE \<longrightarrow>
      best (tick jsString now r1 r2 s) = max (best s) (real_of_int (score (tick jsString now r1 r2 s))))"
proof -
  have 1: "jsNumber ''0'' = Fin 0 \<and> getItem (store s) = Inr None \<longrightarrow> best (loadBest jsNumber s) = 0"
    by (simp add: loadBest_def Let_def)
  have 2: "getItem (store s) = Inr (Some x) \<and> \<not> isFinite (jsNumber x) \<longrightarrow> best (loadBest jsNumber s) = 0"
    by (simp add: loadBest_def Let_def)
  have 3: "getItem (store s) = Inl e \<longrightarrow> loadBest jsNumber s = s"
    by (simp add: loadBest_def)
  have 4: "setThrows (store s) \<longrightarrow> store (tick jsString now r1 r2 s) = store s"
  proof (cases "ui_status (ui s) = LIVE")
    case True
    then show ?thesis
      using tickLive_setThrows [of "s\<lparr>lastT := now\<rparr>" jsString now "tick_dt now s" r1 r2]
      by (simp add: tick_live)
  next
    case False
    then show ?thesis by (simp add: tick_idle)
  qed
  have 5: "ui_status (ui s) = LIVE \<longrightarrow>
      best (tick jsString now r1 r2 s) = max (best s) (real_of_int (score (tick jsString now r1 r2 s)))"
    using tickLive_best [of jsString now "tick_dt now s" r1 r2 "s\<lparr>lastT := now\<rparr>"]
    by (simp add: tick_live)
  show ?thesis using 1 2 3 4 5 tick_store [where jsS = jsString and now = now and s = s and a = a and b = b] by blast
qed

theorem persistence_failures_witness:
  "best (loadBest num0 ((init 0 st0)\<lparr>best := 7\<rparr>)) = 0 \<and>
   best (loadBest num0 ((init 0 stInf)\<lparr>best := 7\<rparr>)) = 0 \<and>
   loadBest num0 ((init 0 stDead)\<lparr>best := 7\<rparr>) = (init 0 stDead)\<lparr>best := 7\<rparr> \<and>
   store (tick str0 2033 0.5 0.5 (sFail\<lparr>best := 0\<rparr>)) = stFull \<and>
   best (tick str0 2033 0.5 0.5 (sFail\<lparr>best := 0\<rparr>)) = 18"
proof -
  let ?a = "(init 0 st0)\<lparr>best := 7\<rparr>"
  let ?b = "(init 0 stInf)\<lparr>best := 7\<rparr>"
  let ?c = "(init 0 stDead)\<lparr>best := 7\<rparr>"
  let ?d = "sFail\<lparr>best := 0\<rparr>"
  have a: "num0 ''0'' = Fin 0 \<and> getItem (store ?a) = Inr None"
    by (simp add: num0_def init_def st0_def getItem_def)
  have 1: "best (loadBest num0 ?a) = 0"
    using persistence_failures [where jsNumber = num0 and s = ?a] a by blast
  have b: "getItem (store ?b) = Inr (Some ''Infinity'') \<and> \<not> isFinite (num0 ''Infinity'')"
    by (simp add: num0_def init_def stInf_def getItem_def)
  have 2: "best (loadBest num0 ?b) = 0"
    using persistence_failures [where jsNumber = num0 and s = ?b and x = "''Infinity''"] b by blast
  have c: "getItem (store ?c) = Inl StorageError"
    by (simp add: init_def stDead_def getItem_def)
  have 3: "loadBest num0 ?c = ?c"
    using persistence_failures [where jsNumber = num0 and s = ?c and e = StorageError] c by blast
  have d: "setThrows (store ?d)" "ui_status (ui ?d) = LIVE"
    by (simp_all add: sFail_def stFull_def)
  have d': "store ?d = stFull" "best ?d = 0"
    by (simp_all add: sFail_def)
  have "store (tick str0 2033 0.5 0.5 ?d) = store ?d"
    using persistence_failures [where jsString = str0 and now = 2033 and ?r1.0 = "0.5"
        and ?r2.0 = "0.5" and s = ?d] d(1) by blast
  then have 4: "store (tick str0 2033 0.5 0.5 ?d) = stFull" by (simp only: d')
  have "best (tick str0 2033 0.5 0.5 ?d) = max (best ?d) (real_of_int (score (tick str0 2033 0.5 0.5 ?d)))"
    using persistence_failures [where jsString = str0 and now = 2033 and ?r1.0 = "0.5"
        and ?r2.0 = "0.5" and s = ?d] d(2) by blast
  then have 5: "best (tick str0 2033 0.5 0.5 ?d) = max 0 (real_of_int (score (tick str0 2033 0.5 0.5 ?d)))"
    by (simp only: d')
  let ?s1 = "preCollide 2033 0.033 0.5 0.5 (?d\<lparr>lastT := 2033\<rparr>)"
  have f: "tick_dt 2033 ?d = 0.033 \<and> ui_status (ui ?d) = LIVE \<and>
         length (missed 0.033 ?s1) = 1 \<and> passed 0.033 ?s1 = []"
    by (rule sFail_frame [OF refl refl])
  then have dt: "tick_dt 2033 ?d = 0.033" and live: "ui_status (ui ?d) = LIVE"
    and h: "passed 0.033 ?s1 = []" by simp_all
  have "tick str0 2033 0.5 0.5 ?d = tickLive str0 2033 (tick_dt 2033 ?d) 0.5 0.5 (?d\<lparr>lastT := 2033\<rparr>)"
    by (rule tick_live [OF live])
  then have t: "tick str0 2033 0.5 0.5 ?d = tickLive str0 2033 0.033 0.5 0.5 (?d\<lparr>lastT := 2033\<rparr>)"
    by (simp only: dt)
  have "score (tickLive str0 2033 0.033 0.5 0.5 (?d\<lparr>lastT := 2033\<rparr>)) = score (?d\<lparr>lastT := 2033\<rparr>)"
    by (rule tickLive_score_idle [OF refl h])
  then have sc: "score (tick str0 2033 0.5 0.5 ?d) = 18"
    by (simp only: t) (simp add: sFail_def)
  have 6: "best (tick str0 2033 0.5 0.5 ?d) = 18" using 5 sc by simp
  show ?thesis using 1 2 3 4 6 by simp
qed

section \<open>The best score\<close>

text \<open>No handler lowers \<open>bestRef\<close>.\<close>

lemma handle_keeps_best: "best s \<le> best (handle jsS e s)"
proof (cases e)
  case (Tick now r1 r2)
  show ?thesis
  proof (cases "ui_status (ui s) = LIVE")
    case True
    have "best (s\<lparr>lastT := now\<rparr>) \<le> best (tickLive jsS now (tick_dt now s) r1 r2 (s\<lparr>lastT := now\<rparr>))"
      by (subst tickLive_best) simp
    then show ?thesis using Tick True by (simp add: handle_def tick_live)
  next
    case False
    then show ?thesis using Tick by (simp add: handle_def tick_idle)
  qed
next
  case (HoldStart pnow)
  then show ?thesis by (simp add: handle_def onHoldStart_def reset_def Let_def)
next
  case HoldEnd
  then show ?thesis by (simp add: handle_def onHoldEnd_def Let_def)
qed

text \<open>
  C4 does not hold of the component. The load of the stored best stands in the body of
  the effect with dependencies \<open>[ui.status]\<close>, so it runs again at every change of
  status and overwrites \<open>bestRef\<close> with what the storage holds. On a storage that can
  be read but not written the best of the run, 18, is still in memory after the frame
  of the miss and is 0 once the status has changed to DOWN.
\<close>

theorem best_lost_on_status_change:
  "ui_status (ui sFail) = LIVE \<and> best sFail = 18 \<and>
   ui_status (ui (step num0 str0 (Tick 2033 0.5 0.5) sFail)) = DOWN \<and>
   best (handle str0 (Tick 2033 0.5 0.5) sFail) = 18 \<and>
   best (step num0 str0 (Tick 2033 0.5 0.5) sFail) = 0"
proof -
  define s1 where "s1 = preCollide 2033 0.033 0.5 0.5 (sFail\<lparr>lastT := 2033\<rparr>)"
  define T where "T = tick str0 2033 0.5 0.5 sFail"
  have e: "sFail = sFail\<lparr>best := 18\<rparr>" by (simp add: sFail_def)
  have f: "tick_dt 2033 sFail = 0.033 \<and> ui_status (ui sFail) = LIVE \<and>
         length (missed 0.033 s1) = 1 \<and> passed 0.033 s1 = []"
    using sFail_frame [of "sFail" 18 s1] e s1_def by simp
  then have dt: "tick_dt 2033 sFail = 0.033" and live: "ui_status (ui sFail) = LIVE"
    and m: "length (missed 0.033 s1) = 1" and h: "passed 0.033 s1 = []" by simp_all
  have mne: "missed 0.033 s1 \<noteq> []" using m by auto
  have t: "T = tickLive str0 2033 0.033 0.5 0.5 (sFail\<lparr>lastT := 2033\<rparr>)"
    using tick_live [OF live, of str0 2033 "0.5" "0.5"] by (simp add: dt T_def)
  have down: "ui_status (ui T) = DOWN"
    using tickLive_outcome [OF s1_def, of str0] mne by (simp add: t)
  have sc: "score T = 18"
    using tickLive_score_idle [OF s1_def h, of str0] by (simp add: t sFail_def)
  have bT: "best T = 18"
    using tickLive_best [of str0 2033 "0.033" "0.5" "0.5" "sFail\<lparr>lastT := 2033\<rparr>"] sc
    by (simp add: t sFail_def)
  have st: "store T = stFull"
    using tickLive_setThrows [of "sFail\<lparr>lastT := 2033\<rparr>" str0 2033 "0.033" "0.5" "0.5"]
    by (simp add: t sFail_def stFull_def)
  have hd: "handle str0 (Tick 2033 0.5 0.5) sFail = T" by (simp add: handle_def T_def)
  have "step num0 str0 (Tick 2033 0.5 0.5) sFail = loadBest num0 T"
    using down live hd by (simp add: step_def Let_def)
  moreover have "best (loadBest num0 T) = 0 \<and> ui_status (ui (loadBest num0 T)) = DOWN"
    using down by (simp add: loadBest_def getItem_def st stFull_def num0_def Let_def)
  ultimately show ?thesis using live bT hd by (simp add: sFail_def)
qed

section \<open>The waves stay apart\<close>

text \<open>
  The uncrossed waves of a field are its last ones, a list of waves pairwise related
  can hold at most one of two waves that exclude each other, and the speed a wave is
  spawned with grows with the score by at most the factor a hit allows.
\<close>

lemma filter_is_drop:
  "sorted_wrt (\<lambda>a c. P a \<longrightarrow> P c) xs \<Longrightarrow>
   filter P xs = drop (length (filter (\<lambda>x. \<not> P x) xs)) xs"
proof (induction xs)
  case Nil
  show ?case by simp
next
  case (Cons x xs)
  show ?case
  proof (cases "P x")
    case True
    then have "\<forall>y\<in>set xs. P y" using Cons.prems by simp
    then have "filter (\<lambda>x. \<not> P x) xs = []" and "filter P xs = xs" by (simp_all add: filter_empty_conv)
    then show ?thesis using True by simp
  next
    case False
    then show ?thesis using Cons by simp
  qed
qed

lemma filter_at_most_one:
  "sorted_wrt Q xs \<Longrightarrow> (\<forall>a\<in>set xs. \<forall>c\<in>set xs. Q a c \<longrightarrow> P a \<longrightarrow> \<not> P c) \<Longrightarrow>
   length (filter P xs) \<le> 1"
proof (induction xs)
  case Nil
  show ?case by simp
next
  case (Cons x xs)
  have ih: "length (filter P xs) \<le> 1" using Cons by simp
  show ?case
  proof (cases "P x")
    case True
    have "\<forall>c\<in>set xs. \<not> P c" using Cons.prems True by auto
    then have "filter P xs = []" by (simp add: filter_empty_conv)
    then show ?thesis using True by simp
  next
    case False
    then show ?thesis using ih by simp
  qed
qed

lemma sorted_wrt_conj:
  "sorted_wrt P xs \<Longrightarrow> sorted_wrt Q xs \<Longrightarrow> sorted_wrt (\<lambda>a c. P a c \<and> Q a c) xs"
  by (induction xs) auto

lemma sorted_wrt_last:
  "sorted_wrt P xs \<Longrightarrow> xs \<noteq> [] \<Longrightarrow> a \<in> set (butlast xs) \<Longrightarrow> P a (last xs)"
proof -
  assume s: "sorted_wrt P xs" and n: "xs \<noteq> []" and a: "a \<in> set (butlast xs)"
  have "sorted_wrt P (butlast xs @ [last xs])" using s n by simp
  then show ?thesis using a by (simp add: sorted_wrt_append)
qed

lemma cap_aux:
  "0 \<le> k \<Longrightarrow> a \<le> b \<Longrightarrow> min c (d + k * (a - e)) \<le> min c (d + k * (b - e :: real))"
proof -
  assume k: "0 \<le> k" and ab: "a \<le> b"
  have "k * (a - e) \<le> k * (b - e)" using k ab by (intro mult_left_mono) simp_all
  then show ?thesis by linarith
qed

lemma speed_cap_mono:
  "0 \<le> x + 558 \<Longrightarrow> x + 558 \<le> y + 558 \<Longrightarrow> n \<le> m \<Longrightarrow> speed_cap n x \<le> speed_cap m y"
proof -
  assume a: "0 \<le> x + 558" and b: "x + 558 \<le> y + 558" and c: "n \<le> m"
  have p: "(1.05::real) ^ n \<le> 1.05 ^ m" using c by (intro power_increasing) simp_all
  have "(1.05::real) ^ n * (x + 558) \<le> 1.05 ^ m * (y + 558)"
    using p a b by (intro mult_mono) simp_all
  then show ?thesis unfolding speed_cap_def by (intro cap_aux) simp_all
qed

lemma speed_cap_hits:
  "y + 558 \<le> 1.05 ^ h * (x + 558) \<Longrightarrow> speed_cap n y \<le> speed_cap (n + h) x"
proof -
  assume a: "y + 558 \<le> 1.05 ^ h * (x + 558)"
  have "(1.05::real) ^ n * (y + 558) \<le> 1.05 ^ n * (1.05 ^ h * (x + 558))"
    using a by (intro mult_left_mono) simp_all
  then have "(1.05::real) ^ n * (y + 558) \<le> 1.05 ^ (n + h) * (x + 558)"
    by (simp add: power_add mult.assoc)
  then show ?thesis unfolding speed_cap_def by (intro cap_aux) simp_all
qed

lemma budget_drop: "budget x n us \<Longrightarrow> budget x (n + h) (drop h us)"
proof (induction h arbitrary: n us)
  case 0
  then show ?case by simp
next
  case (Suc h)
  show ?case
  proof (cases us)
    case Nil
    then show ?thesis by simp
  next
    case (Cons u us')
    then have "budget x (Suc n) us'" using Suc.prems by simp
    then have "budget x (Suc n + h) (drop h us')" by (rule Suc.IH)
    then show ?thesis using Cons by simp
  qed
qed

lemma budget_hits:
  "budget x (n + h) us \<Longrightarrow> y + 558 \<le> 1.05 ^ h * (x + 558) \<Longrightarrow> budget y n us"
proof (induction us arbitrary: n)
  case Nil
  show ?case by simp
next
  case (Cons u us)
  have "speed_cap n y \<le> speed_cap (n + h) x" using Cons.prems(2) by (rule speed_cap_hits)
  moreover have "budget y (Suc n) us" using Cons.IH [of "Suc n"] Cons.prems by simp
  ultimately show ?case using Cons.prems(1) by simp
qed

lemma budget_map_advance: "budget x n (map (advance dt) us) = budget x n us"
  by (induction us arbitrary: n) (simp_all add: advance_def)

lemma budget_append:
  "budget x n (us @ [c]) = (budget x n us \<and> speed_cap (n + length us) x \<le> 2 * speed c)"
  by (induction us arbitrary: n) auto

lemma budget_first:
  "budget x n us \<Longrightarrow> 0 \<le> x + 558 \<Longrightarrow> u \<in> set us \<Longrightarrow> speed_cap 0 x \<le> 2 * speed u"
proof (induction us arbitrary: n)
  case Nil
  then show ?case by simp
next
  case (Cons v us)
  show ?case
  proof (cases "u = v")
    case True
    have "speed_cap 0 x \<le> speed_cap n x" using Cons.prems(2) by (intro speed_cap_mono) simp_all
    then show ?thesis using Cons.prems(1) True by simp
  next
    case False
    then show ?thesis using Cons by auto
  qed
qed

text \<open>A hit takes \<open>score + 558\<close> to at most \<open>1.05 * (score + 558)\<close>.\<close>

lemma hitWave_growth:
  assumes "0 \<le> streak s" and "18 * streak s \<le> score s"
  shows "0 \<le> streak (hitWave w s) \<and> 18 * streak (hitWave w s) \<le> score (hitWave w s) \<and>
         real_of_int (score (hitWave w s)) + 558 \<le> 1.05 * (real_of_int (score s) + 558)"
proof -
  define k where "k = streak s"
  define F where "F = \<lfloor>real_of_int (k + 1) * 0.9\<rfloor>"
  have k0: "0 \<le> k" and ks: "18 * k \<le> score s" using assms by (simp_all add: k_def)
  have "0 \<le> real_of_int (k + 1) * 0.9" using k0 by simp
  then have F0: "0 \<le> F" unfolding F_def by (rule zero_le_floor [THEN iffD2])
  have F1: "real_of_int F \<le> real_of_int (k + 1) * 0.9" unfolding F_def by (rule of_int_floor_le)
  have st: "streak (hitWave w s) = k + 1" by (simp add: hitWave_def Let_def k_def)
  have sc: "score (hitWave w s) = score s + 18 + F \<or> score (hitWave w s) = score s + 9 + 18 + F"
    by (simp add: hitWave_def Let_def k_def F_def)
  have ksr: "18 * real_of_int k \<le> real_of_int (score s)" using ks
    by (metis of_int_le_iff of_int_mult of_int_numeral)
  have F1': "real_of_int F \<le> 0.9 * real_of_int k + 0.9" using F1 by (simp add: algebra_simps)
  have a: "18 * streak (hitWave w s) \<le> score (hitWave w s)" using sc st ks F0 by auto
  have "real_of_int (score (hitWave w s)) \<le> real_of_int (score s) + 27 + real_of_int F"
    using sc by auto
  then have "real_of_int (score (hitWave w s)) + 558 \<le> 1.05 * (real_of_int (score s) + 558)"
    using F1' ksr by simp
  then show ?thesis using st k0 a by simp
qed

lemma resolveWave_growth:
  assumes "0 \<le> streak s" and "18 * streak s \<le> score s"
  shows "0 \<le> streak (fst (resolveWave dt w s)) \<and>
         18 * streak (fst (resolveWave dt w s)) \<le> score (fst (resolveWave dt w s)) \<and>
         real_of_int (score (fst (resolveWave dt w s))) + 558 \<le>
           1.05 ^ (if crossing dt w then 1 else 0) * (real_of_int (score s) + 558)"
proof -
  have sc: "0 \<le> real_of_int (score s) + 558" using assms by simp
  show ?thesis
  proof (cases "crossing dt w \<and> inside (px s) w")
    case True
    then show ?thesis using hitWave_growth [OF assms, of w] by (simp add: resolveWave_def)
  next
    case False
    then have "score (fst (resolveWave dt w s)) = score s \<and> streak (fst (resolveWave dt w s)) = streak s"
      by (auto simp: resolveWave_def)
    then show ?thesis using assms sc by simp
  qed
qed

lemma collide_growth:
  "0 \<le> streak s \<Longrightarrow> 18 * streak s \<le> score s \<Longrightarrow>
   0 \<le> streak (fst (collide dt ws s)) \<and>
   18 * streak (fst (collide dt ws s)) \<le> score (fst (collide dt ws s)) \<and>
   real_of_int (score (fst (collide dt ws s))) + 558 \<le>
     1.05 ^ length (filter (crossing dt) ws) * (real_of_int (score s) + 558)"
proof (induction ws arbitrary: s)
  case Nil
  then show ?case by simp
next
  case (Cons w ws)
  obtain s1 us1 where r: "resolveWave dt w s = (s1, us1)" by (cases "resolveWave dt w s")
  have g: "0 \<le> streak s1 \<and> 18 * streak s1 \<le> score s1 \<and>
      real_of_int (score s1) + 558 \<le> 1.05 ^ (if crossing dt w then 1 else 0) * (real_of_int (score s) + 558)"
    using resolveWave_growth [OF Cons.prems, of dt w] r by simp
  have f: "fst (collide dt (w # ws) s) = fst (collide dt ws s1)"
    using r by (simp split: prod.splits)
  have ih: "0 \<le> streak (fst (collide dt ws s1)) \<and>
      18 * streak (fst (collide dt ws s1)) \<le> score (fst (collide dt ws s1)) \<and>
      real_of_int (score (fst (collide dt ws s1))) + 558 \<le>
        1.05 ^ length (filter (crossing dt) ws) * (real_of_int (score s1) + 558)"
    using Cons.IH [of s1] g by simp
  have "1.05 ^ length (filter (crossing dt) ws) * (real_of_int (score s1) + 558) \<le>
        1.05 ^ length (filter (crossing dt) ws) *
          (1.05 ^ (if crossing dt w then 1 else 0) * (real_of_int (score s) + 558))"
    using g by (intro mult_left_mono) simp_all
  also have "\<dots> = 1.05 ^ length (filter (crossing dt) (w # ws)) * (real_of_int (score s) + 558)"
    by simp
  finally show ?case using ih f by simp
qed

text \<open>No more than four waves are above the band at once.\<close>

lemma close_pair:
  assumes g: "time_gap a c" and r: "speed c \<le> 2 * speed a" and sa: "0 < speed a"
    and sc: "0 < speed c" and yc: "wy c \<le> 1.15"
  shows "wy a \<le> 0.075 + wy c / 2"
proof -
  define A where "A = 1.15 - wy c"
  define B where "B = 0.65 - wy a"
  have A0: "0 \<le> A" using yc by (simp add: A_def)
  have le: "A * speed a \<le> B * speed c" using g by (simp add: time_gap_def A_def B_def)
  have "0 \<le> A * speed a" using A0 sa by simp
  then have "0 \<le> B * speed c" using le by linarith
  then have B0: "0 \<le> B" using sc by (simp add: zero_le_mult_iff)
  have "B * speed c \<le> B * (2 * speed a)" using B0 r by (rule mult_left_mono [rotated])
  then have "A * speed a \<le> (2 * B) * speed a" using le by (simp add: mult.assoc mult.left_commute)
  then have "A \<le> 2 * B" using sa by (simp only: mult_le_cancel_right)
  then show ?thesis by (simp add: A_def B_def)
qed

lemma chain_short:
  assumes s: "sorted_wrt (\<lambda>a c. wy a \<le> 0.075 + wy c / 2) us"
    and u: "\<forall>w\<in>set us. playerY < wy w \<and> wy w \<le> 1.15"
  shows "length us \<le> 4"
proof (rule ccontr)
  assume "\<not> length us \<le> 4"
  then have l: "4 < length us" by simp
  have p: "\<And>i j. i < j \<Longrightarrow> j < length us \<Longrightarrow> wy (us ! i) \<le> 0.075 + wy (us ! j) / 2"
    using s by (simp add: sorted_wrt_iff_nth_less)
  have 1: "wy (us ! 3) \<le> 0.075 + wy (us ! 4) / 2" using p [of 3 4] l by simp
  have 2: "wy (us ! 2) \<le> 0.075 + wy (us ! 3) / 2" using p [of 2 3] l by simp
  have 3: "wy (us ! 1) \<le> 0.075 + wy (us ! 2) / 2" using p [of 1 2] l by simp
  have 4: "wy (us ! 0) \<le> 0.075 + wy (us ! 1) / 2" using p [of 0 1] l by simp
  have "0 < length us" using l by (rule less_trans [rotated]) simp
  then have "us ! 0 \<in> set us" by (rule nth_mem)
  moreover have "us ! 4 \<in> set us" using l by (rule nth_mem)
  ultimately have "us ! 4 \<in> set us" and "us ! 0 \<in> set us" by simp_all
  then have "wy (us ! 4) \<le> 1.15" and "0.22 < wy (us ! 0)" using u by (auto simp: playerY_def)
  then show False using 1 2 3 4 by simp
qed

lemma wave_ok_speed: "wave_ok w \<Longrightarrow> 0.35 \<le> speed w \<and> speed w \<le> 1.15 \<and> 0 < speed w"
  by (simp add: wave_ok_def inRange_def)

lemma uncrossed_count:
  assumes "spaced s"
  shows "length (filter uncrossed (waves s)) \<le> 4"
proof -
  let ?ws = "waves s"
  have ok: "\<forall>w\<in>set ?ws. wave_ok w \<and> wy w \<le> 1.15"
    using assms by (simp add: spaced_def list_all_iff)
  have "sorted_wrt (\<lambda>a c. time_gap a c \<and> speed_ratio a c) ?ws"
    using assms by (simp add: spaced_def sorted_wrt_conj)
  then have "sorted_wrt (\<lambda>a c. time_gap a c \<and> speed_ratio a c) (filter uncrossed ?ws)"
    by (rule sorted_wrt_filter)
  then have "sorted_wrt (\<lambda>a c. wy a \<le> 0.075 + wy c / 2) (filter uncrossed ?ws)"
  proof (rule sorted_wrt_mono_rel [rotated])
    fix a c
    assume a: "a \<in> set (filter uncrossed ?ws)" and c: "c \<in> set (filter uncrossed ?ws)"
      and r: "time_gap a c \<and> speed_ratio a c"
    have "speed c \<le> 2 * speed a" using r a by (simp add: speed_ratio_def)
    then show "wy a \<le> 0.075 + wy c / 2"
      using close_pair [of a c] r a c ok wave_ok_speed by auto
  qed
  moreover have "\<forall>w\<in>set (filter uncrossed ?ws). playerY < wy w \<and> wy w \<le> 1.15"
    using ok by (simp add: uncrossed_def)
  ultimately show ?thesis by (rule chain_short)
qed

text \<open>Spawning keeps the spacing.\<close>

lemma speed_cap_four: "0 \<le> x \<Longrightarrow> speed_cap 4 x \<le> 2 * speed_cap 0 x"
proof -
  assume x: "0 \<le> x"
  define P where "P = (1.05::real) ^ 4 * (x + 558)"
  have e: "(1.05::real) ^ 4 = 1.21550625" by (simp add: power4_eq_xxxx)
  have "P = 1.21550625 * (x + 558)" by (simp only: P_def e)
  then have p: "P \<le> 2 * x + 679" using x by simp
  have a: "speed_cap 4 x \<le> 1.15" unfolding speed_cap_def by (rule min.cobounded1)
  have "speed_cap 4 x \<le> 0.35 + 0.00015 * (P - 558)"
    unfolding speed_cap_def P_def by (rule min.cobounded2)
  then have b: "speed_cap 4 x \<le> 2 * (0.35 + 0.00015 * x)" using p x by (simp add: field_simps)
  have "speed_cap 0 x = min 1.15 (0.35 + 0.00015 * x)" unfolding speed_cap_def by simp
  then show ?thesis using a b by (simp add: min_def)
qed

lemma spawn_speed:
  "0 \<le> x \<Longrightarrow> clamp (0.35 + x * 0.00015) 0.35 1.15 = speed_cap 0 x"
  unfolding clamp_def speed_cap_def by (simp add: min_def max_def)

lemma spaced_spawnWave:
  assumes sp: "spaced s" and last: "waves s = [] \<or> wy (last (waves s)) < 0.65"
  shows "spaced (spawnWave r s)"
proof -
  let ?ws = "waves s"
  define x where "x = real_of_int (score s)"
  define c where "c = \<lparr>wid = waveId s, wy = 1.15, gapX = clamp (0.15 + r * 0.70) 0.1 0.9,
      gapW = clamp (0.26 - x * 0.0006) 0.12 0.26, speed = clamp (0.35 + x * 0.00015) 0.35 1.15\<rparr>"
  have w: "waves (spawnWave r s) = ?ws @ [c]"
    and k: "streak (spawnWave r s) = streak s" "score (spawnWave r s) = score s"
    by (simp_all add: spawnWave_def Let_def c_def x_def)
  have x0: "0 \<le> x" using sp by (simp add: spaced_def x_def)
  have sc: "speed c = speed_cap 0 x" using spawn_speed [OF x0] by (simp add: c_def)
  have okc: "wave_ok c" by (simp add: c_def wave_ok_def inRange_clamp)
  have yc: "wy c = 1.15" by (simp add: c_def)
  have ok: "\<forall>w\<in>set ?ws. wave_ok w \<and> wy w \<le> 1.15"
    using sp by (simp add: spaced_def list_all_iff)
  have tg: "sorted_wrt time_gap ?ws" and sr: "sorted_wrt speed_ratio ?ws"
    and bu: "budget x 0 (filter uncrossed ?ws)"
    using sp by (simp_all add: spaced_def x_def)
  have low: "\<forall>a\<in>set ?ws. wy a \<le> 0.65"
  proof
    fix a
    assume a: "a \<in> set ?ws"
    then have ne: "?ws \<noteq> []" by auto
    then have l: "wy (last ?ws) < 0.65" using last by simp
    have "a = last ?ws \<or> a \<in> set (butlast ?ws)"
      using a ne by (metis append_butlast_last_id in_set_conv_decomp_first insert_iff list.set(2) rotate1.simps(2) set_rotate1)
    then show "wy a \<le> 0.65"
    proof
      assume "a = last ?ws"
      then show ?thesis using l by simp
    next
      assume b: "a \<in> set (butlast ?ws)"
      have g: "time_gap a (last ?ws)" using tg ne b by (rule sorted_wrt_last)
      have sa: "0 < speed a" using ok a wave_ok_speed by blast
      have sl: "0 < speed (last ?ws)" using ok ne wave_ok_speed last_in_set by blast
      have "0 \<le> (1.15 - wy (last ?ws)) * speed a" using l sa by simp
      then have "0 \<le> (0.65 - wy a) * speed (last ?ws)" using g by (simp add: time_gap_def)
      then have "0 \<le> 0.65 - wy a" using sl by (simp add: zero_le_mult_iff)
      then show ?thesis by simp
    qed
  qed
  have sc0: "0 < speed c" using okc wave_ok_speed by blast
  have tg': "sorted_wrt time_gap (?ws @ [c])"
  proof -
    have "\<forall>a\<in>set ?ws. time_gap a c"
    proof
      fix a
      assume "a \<in> set ?ws"
      then have "0 \<le> 0.65 - wy a" using low by simp
      then have "0 \<le> (0.65 - wy a) * speed c" using sc0 by simp
      then show "time_gap a c" by (simp add: time_gap_def yc)
    qed
    then show ?thesis using tg by (simp add: sorted_wrt_append)
  qed
  have sr': "sorted_wrt speed_ratio (?ws @ [c])"
  proof -
    have "\<forall>a\<in>set ?ws. speed_ratio a c"
    proof
      fix a
      assume a: "a \<in> set ?ws"
      show "speed_ratio a c"
        unfolding speed_ratio_def
      proof
        assume "uncrossed a"
        then have "a \<in> set (filter uncrossed ?ws)" using a by simp
        then show "speed c \<le> 2 * speed a" using budget_first [OF bu] x0 sc by simp
      qed
    qed
    then show ?thesis using sr by (simp add: sorted_wrt_append)
  qed
  have uc: "uncrossed c" by (simp add: uncrossed_def yc playerY_def)
  have "length (filter uncrossed ?ws) \<le> 4" using sp by (rule uncrossed_count)
  then have "speed_cap (length (filter uncrossed ?ws)) x \<le> speed_cap 4 x"
    using x0 by (intro speed_cap_mono) simp_all
  then have "speed_cap (length (filter uncrossed ?ws)) x \<le> 2 * speed c"
    using speed_cap_four [OF x0] sc by simp
  then have bu': "budget x 0 (filter uncrossed (?ws @ [c]))"
    using bu uc by (simp add: budget_append)
  have "list_all wave_ok (?ws @ [c])" and "list_all (\<lambda>w. wy w \<le> 1.15) (?ws @ [c])"
    using ok okc yc by (simp_all add: list_all_iff)
  then show ?thesis using sp tg' sr' bu' by (simp add: spaced_def w k x_def)
qed

lemma spaced_spawnStep: "spaced s \<Longrightarrow> spaced (spawnStep r1 r2 s)"
proof -
  assume sp: "spaced s"
  show ?thesis
  proof (cases "waves s = []")
    case True
    have a: "spaced (spawnWave r1 s)" using sp True by (intro spaced_spawnWave) simp_all
    have "waves (spawnWave r1 s) \<noteq> [] \<and> \<not> wy (last (waves (spawnWave r1 s))) < 0.65"
      using True by (simp add: spawnWave_def Let_def)
    then show ?thesis using a True by (simp add: spawnStep_def Let_def)
  next
    case False
    show ?thesis
    proof (cases "wy (last (waves s)) < 0.65")
      case True
      then have "spaced (spawnWave r2 s)" using sp by (intro spaced_spawnWave) simp_all
      then show ?thesis using True False by (simp add: spawnStep_def Let_def)
    next
      case f: False
      then show ?thesis using False sp by (simp add: spawnStep_def Let_def)
    qed
  qed
qed

text \<open>Advancing, resolving and pruning the waves keep the spacing.\<close>

lemma wy_advance: "wy (advance dt w) = wy w - dt * speed w"
  by (simp add: advance_def)

lemma gap_shift:
  "((p - (y - d * sc)) * sa \<le> (q - (z - d * sa)) * sc) = ((p - y) * sa \<le> (q - z) * (sc::real))"
  by (simp add: algebra_simps)

lemma time_gap_advance: "time_gap (advance dt a) (advance dt c) = time_gap a c"
  unfolding time_gap_def advance_def by (simp add: gap_shift)

lemma uncrossed_advance:
  "0 \<le> dt \<Longrightarrow> 0 \<le> speed w \<Longrightarrow> uncrossed (advance dt w) \<Longrightarrow> uncrossed w"
proof -
  assume "0 \<le> dt" and "0 \<le> speed w" and u: "uncrossed (advance dt w)"
  then have "0 \<le> dt * speed w" by simp
  then show ?thesis using u by (simp add: uncrossed_def advance_def)
qed

lemma crossing_uncrossed:
  "crossing dt (advance dt w) = (uncrossed w \<and> \<not> uncrossed (advance dt w))"
  by (auto simp: crossing_def uncrossed_def advance_def)

lemma order_kept:
  assumes g: "time_gap a c" and r: "speed c \<le> 2 * speed a" and sa: "0 < speed a"
    and sc: "0 < speed c" and ua: "playerY < wy a" and cc: "wy c \<le> playerY + d"
    and d: "d \<le> 0.03795"
  shows False
proof -
  define A where "A = 1.15 - wy c"
  define B where "B = 0.65 - wy a"
  have A0: "0.89205 \<le> A" using cc d by (simp add: A_def playerY_def)
  have B0: "B \<le> 0.43" using ua by (simp add: B_def playerY_def)
  have le: "A * speed a \<le> B * speed c" using g by (simp add: time_gap_def A_def B_def)
  have 1: "0.89205 * speed a \<le> A * speed a" using A0 sa by (intro mult_right_mono) simp_all
  have 2: "B * speed c \<le> 0.43 * speed c" using B0 sc by (intro mult_right_mono) simp_all
  have "0.89205 * speed a \<le> 0.43 * speed c" using 1 2 le by linarith
  then show False using r sa by simp
qed

lemma spaced_frame:
  assumes sp: "spaced s0" and dt: "0 \<le> dt"
    and w: "waves T = filter (\<lambda>w. wy w > - 0.2) (map (advance dt) (waves s0))"
    and k: "0 \<le> streak T" "18 * streak T \<le> score T"
    and g: "real_of_int (score T) + 558 \<le>
        1.05 ^ length (filter (crossing dt) (map (advance dt) (waves s0))) * (real_of_int (score s0) + 558)"
  shows "spaced T"
proof -
  let ?ws = "waves s0"
  let ?U = "filter uncrossed ?ws"
  let ?Q = "\<lambda>w. uncrossed (advance dt w)"
  define x where "x = real_of_int (score s0)"
  define h where "h = length (filter (crossing dt) (map (advance dt) ?ws))"
  have ok: "\<forall>w\<in>set ?ws. wave_ok w \<and> wy w \<le> 1.15"
    using sp by (simp add: spaced_def list_all_iff)
  have pos: "\<forall>w\<in>set ?ws. 0 < speed w \<and> 0 \<le> speed w" using ok wave_ok_speed by fastforce
  have tg: "sorted_wrt time_gap ?ws" and sr: "sorted_wrt speed_ratio ?ws"
    and bu: "budget x 0 ?U"
    using sp by (simp_all add: spaced_def x_def)
  have a1: "list_all wave_ok (waves T)"
    using ok by (auto simp: w list_all_iff wave_ok_advance)
  have a2: "list_all (\<lambda>w. wy w \<le> 1.15) (waves T)"
  proof -
    have "\<forall>v\<in>set ?ws. wy (advance dt v) \<le> 1.15"
    proof
      fix v
      assume v: "v \<in> set ?ws"
      then have "0 \<le> dt * speed v" using dt pos by simp
      moreover have "wy v \<le> 1.15" using ok v by blast
      ultimately have "wy v - dt * speed v \<le> 1.15" by linarith
      then show "wy (advance dt v) \<le> 1.15" by (simp only: wy_advance)
    qed
    then show ?thesis by (auto simp: w list_all_iff)
  qed
  have "sorted_wrt time_gap (map (advance dt) ?ws)"
    using tg by (simp add: sorted_wrt_map time_gap_advance)
  then have a3: "sorted_wrt time_gap (waves T)" unfolding w by (rule sorted_wrt_filter)
  have "sorted_wrt (\<lambda>a c. speed_ratio (advance dt a) (advance dt c)) ?ws"
    using sr
  proof (rule sorted_wrt_mono_rel [rotated])
    fix a c
    assume a: "a \<in> set ?ws" and "c \<in> set ?ws" and r: "speed_ratio a c"
    show "speed_ratio (advance dt a) (advance dt c)"
      unfolding speed_ratio_def
    proof
      assume "uncrossed (advance dt a)"
      then have "uncrossed a" using uncrossed_advance [OF dt] pos a by blast
      then have "speed c \<le> 2 * speed a" using r by (simp add: speed_ratio_def)
      then show "speed (advance dt c) \<le> 2 * speed (advance dt a)" by (simp add: advance_def)
    qed
  qed
  then have "sorted_wrt speed_ratio (map (advance dt) ?ws)" by (simp add: sorted_wrt_map)
  then have a4: "sorted_wrt speed_ratio (waves T)" unfolding w by (rule sorted_wrt_filter)
  have f1: "filter uncrossed (waves T) = map (advance dt) (filter ?Q ?ws)"
  proof -
    have "filter uncrossed (waves T) = filter uncrossed (map (advance dt) ?ws)"
      unfolding w filter_filter
      by (rule filter_cong) (auto simp: uncrossed_def playerY_def)
    then show ?thesis by (simp add: filter_map comp_def)
  qed
  have f2: "filter ?Q ?ws = filter ?Q ?U"
  proof -
    have "filter ?Q ?U = filter (\<lambda>w. uncrossed w \<and> ?Q w) ?ws" by (simp add: filter_filter)
    also have "\<dots> = filter ?Q ?ws"
      by (rule filter_cong) (use uncrossed_advance [OF dt] pos in auto)
    finally show ?thesis by simp
  qed
  have "sorted_wrt (\<lambda>a c. time_gap a c \<and> speed_ratio a c) ?U"
    using tg sr by (intro sorted_wrt_filter sorted_wrt_conj)
  then have "sorted_wrt (\<lambda>a c. ?Q a \<longrightarrow> ?Q c) ?U"
  proof (rule sorted_wrt_mono_rel [rotated])
    fix a c
    assume a: "a \<in> set ?U" and c: "c \<in> set ?U" and r: "time_gap a c \<and> speed_ratio a c"
    have r2: "speed c \<le> 2 * speed a" using r a by (simp add: speed_ratio_def)
    show "?Q a \<longrightarrow> ?Q c"
    proof (rule impI, rule ccontr)
      assume qa: "?Q a" and qc: "\<not> ?Q c"
      have g': "time_gap (advance dt a) (advance dt c)" using r by (simp add: time_gap_advance)
      have "wy (advance dt c) \<le> playerY + 0" using qc by (simp add: uncrossed_def)
      then show False
        using order_kept [OF g', of 0] r2 a c pos qa
        by (simp add: advance_def uncrossed_def)
    qed
  qed
  then have f3: "filter ?Q ?U = drop (length (filter (\<lambda>w. \<not> ?Q w) ?U)) ?U"
    by (rule filter_is_drop)
  have "h = length (filter (\<lambda>w. crossing dt (advance dt w)) ?ws)"
    by (simp add: h_def filter_map comp_def)
  also have "\<dots> = length (filter (\<lambda>w. uncrossed w \<and> \<not> ?Q w) ?ws)"
    by (simp only: crossing_uncrossed)
  also have "\<dots> = length (filter (\<lambda>w. \<not> ?Q w) ?U)" by (simp add: filter_filter)
  finally have hh: "length (filter (\<lambda>w. \<not> ?Q w) ?U) = h" by simp
  have b1: "budget x (0 + h) (drop h ?U)" using bu by (rule budget_drop)
  have g': "real_of_int (score T) + 558 \<le> 1.05 ^ h * (x + 558)"
    using g unfolding x_def h_def .
  have "budget (real_of_int (score T)) 0 (drop h ?U)" by (rule budget_hits [OF b1 g'])
  then have b2: "budget (real_of_int (score T)) 0 (map (advance dt) (drop h ?U))"
    by (simp only: budget_map_advance)
  have "filter uncrossed (waves T) = map (advance dt) (drop h ?U)"
    by (simp only: f1 f2 f3 hh)
  then have a5: "budget (real_of_int (score T)) 0 (filter uncrossed (waves T))"
    using b2 by simp
  show ?thesis using k a1 a2 a3 a4 a5 by (simp add: spaced_def)
qed

text \<open>
  The spacing holds in every state reached from the mounted component by events whose
  timestamps never decrease, and in a spaced field at most one wave crosses the band
  in a frame.
\<close>

lemma spaced_cong:
  "streak a = streak b \<Longrightarrow> score a = score b \<Longrightarrow> waves a = waves b \<Longrightarrow> spaced a = spaced b"
  by (simp add: spaced_def)

lemma spaced_tickLive:
  assumes sp: "spaced s" and dt: "0 \<le> dt"
  shows "spaced (tickLive jsS now dt r1 r2 s)"
proof -
  let ?s0 = "spawnStep r1 r2 s"
  let ?s1 = "preCollide now dt r1 r2 s"
  let ?c = "collide dt (waves ?s1) ?s1"
  let ?y = "updateBest jsS (prune (fst ?c))"
  let ?T = "tickLive jsS now dt r1 r2 s"
  have s0: "spaced ?s0" using sp by (rule spaced_spawnStep)
  have sc0: "score ?s0 = score s" by (simp add: spawnStep_frame)
  have pre: "streak ?s1 = streak s" "score ?s1 = score s"
    "waves ?s1 = map (advance dt) (waves ?s0)"
    using preCollide_frame [of now dt r1 r2 s] by simp_all
  have k: "0 \<le> streak s" "18 * streak s \<le> score s" using sp by (simp_all add: spaced_def)
  have k1: "0 \<le> streak ?s1" "18 * streak ?s1 \<le> score ?s1" using k pre by simp_all
  have gr: "0 \<le> streak (fst ?c) \<and> 18 * streak (fst ?c) \<le> score (fst ?c) \<and>
      real_of_int (score (fst ?c)) + 558 \<le>
        1.05 ^ length (filter (crossing dt) (waves ?s1)) * (real_of_int (score ?s1) + 558)"
    by (rule collide_growth [OF k1])
  have t: "?T = flushUi (snd ?c @ [uiSnapshot now ?y]) ?y" by (rule tickLive_unfold)
  have post: "score ?T = score (fst ?c)" "streak ?T = streak (fst ?c)"
    using post_frame [of "snd ?c @ [uiSnapshot now ?y]" jsS "fst ?c"] by (simp_all add: t)
  have w: "waves ?T = filter (\<lambda>w. wy w > - 0.2) (map (advance dt) (waves ?s0))"
    using tickLive_frame [of jsS now dt r1 r2 s] by simp
  have g: "real_of_int (score ?T) + 558 \<le>
        1.05 ^ length (filter (crossing dt) (map (advance dt) (waves ?s0))) * (real_of_int (score ?s0) + 558)"
    using gr by (simp only: post pre sc0)
  have k2: "0 \<le> streak ?T" "18 * streak ?T \<le> score ?T" using gr by (simp_all only: post)
  show ?thesis by (rule spaced_frame [OF s0 dt w k2 g])
qed

lemma spaced_tick:
  assumes sp: "spaced s" and m: "lastT s \<le> now"
  shows "spaced (tick jsS now r1 r2 s)"
proof (cases "ui_status (ui s) = LIVE")
  case True
  have d: "0 \<le> tick_dt now s" using m by (intro tick_dt_nonneg) simp
  have "spaced (s\<lparr>lastT := now\<rparr>)" using sp by (simp add: spaced_def)
  then have "spaced (tickLive jsS now (tick_dt now s) r1 r2 (s\<lparr>lastT := now\<rparr>))"
    using d by (rule spaced_tickLive)
  then show ?thesis using True by (simp add: tick_live)
next
  case False
  then show ?thesis using sp by (simp add: tick_idle spaced_def)
qed

lemma loadBest_counters:
  "streak (loadBest jsN s) = streak s \<and> score (loadBest jsN s) = score s"
  by (simp add: loadBest_def Let_def split: sum.splits)

lemma spaced_loadBest: "spaced s \<Longrightarrow> spaced (loadBest jsN s)"
  using loadBest_counters [of jsN s] loadBest_frame [of jsN s] by (simp add: spaced_def)

lemma spaced_step:
  assumes m: "monotonic (lastT s) (e # es)" and sp: "spaced s"
  shows "spaced (step jsN jsS e s) \<and> monotonic (lastT (step jsN jsS e s)) es"
proof -
  have h: "spaced (handle jsS e s) \<and> monotonic (lastT (handle jsS e s)) es"
  proof (cases e)
    case (Tick now r1 r2)
    then have "lastT s \<le> now" "monotonic now es" using m by simp_all
    then show ?thesis using Tick spaced_tick [OF sp, of now jsS r1 r2] tick_lastT [of jsS now r1 r2 s]
      by (simp add: handle_def)
  next
    case (HoldStart pnow)
    have "spaced (reset (Some ''RUN.'') pnow s)" by (simp add: spaced_def reset_def)
    then show ?thesis using HoldStart m sp
      by (simp add: handle_def onHoldStart_def Let_def spaced_def reset_def)
  next
    case HoldEnd
    then show ?thesis using m sp by (simp add: handle_def onHoldEnd_def Let_def spaced_def)
  qed
  then show ?thesis using spaced_loadBest [of "handle jsS e s" jsN] loadBest_frame [of jsN "handle jsS e s"]
    by (simp add: step_def Let_def)
qed

lemma spaced_run:
  "monotonic (lastT s) (es @ es') \<Longrightarrow> spaced s \<Longrightarrow>
   spaced (run jsN jsS es s) \<and> monotonic (lastT (run jsN jsS es s)) es'"
proof (induction es arbitrary: s)
  case Nil
  then show ?case by simp
next
  case (Cons e es)
  have "monotonic (lastT s) (e # (es @ es'))" using Cons.prems(1) by simp
  then have "spaced (step jsN jsS e s) \<and> monotonic (lastT (step jsN jsS e s)) (es @ es')"
    using Cons.prems(2) by (rule spaced_step)
  then show ?case using Cons.IH [of "step jsN jsS e s"] by simp
qed

lemma spaced_mount: "spaced (mount jsN t st)"
proof -
  have "spaced (init t st)" by (simp add: spaced_def init_def)
  then show ?thesis unfolding mount_def by (rule spaced_loadBest)
qed

lemma one_crossing:
  assumes sp: "spaced s0" and dt: "0 \<le> dt" "dt \<le> 0.033"
  shows "length (filter (crossing dt) (map (advance dt) (waves s0))) \<le> 1"
proof -
  let ?ws = "waves s0"
  let ?P = "\<lambda>w. crossing dt (advance dt w)"
  have ok: "\<forall>w\<in>set ?ws. wave_ok w" using sp by (simp add: spaced_def list_all_iff)
  have q: "sorted_wrt (\<lambda>a c. time_gap a c \<and> speed_ratio a c) ?ws"
    using sp by (simp add: spaced_def sorted_wrt_conj)
  have "\<forall>a\<in>set ?ws. \<forall>c\<in>set ?ws. (time_gap a c \<and> speed_ratio a c) \<longrightarrow> ?P a \<longrightarrow> \<not> ?P c"
  proof (intro ballI impI notI)
    fix a c
    assume a: "a \<in> set ?ws" and c: "c \<in> set ?ws" and r: "time_gap a c \<and> speed_ratio a c"
      and pa: "?P a" and pc: "?P c"
    have ua: "playerY < wy a" using pa by (simp add: crossing_uncrossed uncrossed_def)
    then have r2: "speed c \<le> 2 * speed a" using r by (simp add: speed_ratio_def uncrossed_def)
    have sa: "0 < speed a" and sc: "0 < speed c" "speed c \<le> 1.15"
      using ok a c wave_ok_speed by blast+
    have "dt * speed c \<le> 0.033 * 1.15" using dt sc by (intro mult_mono) simp_all
    then have d: "dt * speed c \<le> 0.03795" by simp
    have "wy c - dt * speed c \<le> playerY" using pc by (simp add: crossing_advance)
    then have cc: "wy c \<le> playerY + dt * speed c" by simp
    show False using order_kept [OF _ r2 sa sc(1) ua cc d] r by simp
  qed
  with q have "length (filter ?P ?ws) \<le> 1" by (rule filter_at_most_one)
  then show ?thesis by (simp add: filter_map comp_def)
qed

lemma missed_passed:
  "length (missed dt s) + length (passed dt s) = length (filter (crossing dt) (waves s))"
proof -
  have "length (filter (\<lambda>w. inside (px s) w) (filter (crossing dt) (waves s))) +
        length (filter (\<lambda>w. \<not> inside (px s) w) (filter (crossing dt) (waves s))) =
        length (filter (crossing dt) (waves s))"
    by (rule sum_length_filter_compl)
  then show ?thesis by (simp add: missed_def passed_def filter_filter add.commute)
qed

lemma tick_dt_le: "tick_dt now s \<le> 0.033"
  by (simp add: tick_dt_def)

lemma frame_one_crossing:
  assumes m: "monotonic 0 (es @ [Tick now r1 r2])"
    and s: "s = run jsN jsS es (mount jsN t st)"
    and s1: "s1 = preCollide now (tick_dt now s) r1 r2 (s\<lparr>lastT := now\<rparr>)"
  shows "length (missed (tick_dt now s) s1) + length (passed (tick_dt now s) s1) \<le> 1"
proof -
  have l0: "lastT (mount jsN t st) = 0" by (simp add: mount_def loadBest_frame init_def)
  have "spaced (run jsN jsS es (mount jsN t st)) \<and>
        monotonic (lastT (run jsN jsS es (mount jsN t st))) [Tick now r1 r2]"
    using m spaced_mount [of jsN t st] by (intro spaced_run) (simp_all add: l0)
  then have sp: "spaced s" and le: "lastT s \<le> now" using s by simp_all
  have d0: "0 \<le> tick_dt now s" using le by (intro tick_dt_nonneg) simp
  have "spaced (s\<lparr>lastT := now\<rparr>)" using sp by (simp add: spaced_def)
  then have s0: "spaced (spawnStep r1 r2 (s\<lparr>lastT := now\<rparr>))" by (rule spaced_spawnStep)
  have w: "waves s1 = map (advance (tick_dt now s)) (waves (spawnStep r1 r2 (s\<lparr>lastT := now\<rparr>)))"
    using preCollide_frame [of now "tick_dt now s" r1 r2 "s\<lparr>lastT := now\<rparr>"] s1 by simp
  have "length (filter (crossing (tick_dt now s)) (waves s1)) \<le> 1"
    unfolding w by (rule one_crossing [OF s0 d0 tick_dt_le])
  then show ?thesis by (simp only: missed_passed)
qed

section \<open>A run that ends in a miss\<close>

lemma convoy_spawnWave:
  assumes "score s = 0" and "convoy y (waves s)" and "y \<le> 0.65"
  shows "convoy y (waves (spawnWave r s))"
proof -
  obtain w rest where ws: "waves s = w # rest" using assms(2) by (cases "waves s") (simp_all add: convoy_def)
  show ?thesis using assms by (simp add: ws convoy_def spawnWave_def Let_def clamp_def)
qed

lemma convoy_low:
  assumes "convoy y ws" and "wy (last ws) < 0.65"
  shows "y \<le> 0.65"
proof -
  obtain w rest where ws: "ws = w # rest" using assms(1) by (cases ws) (simp_all add: convoy_def)
  show ?thesis
  proof (cases "rest = []")
    case True
    then show ?thesis using assms by (simp add: ws convoy_def)
  next
    case False
    then have "last rest \<in> set rest" by simp
    then have "y + 0.5 \<le> wy (last rest)" using assms(1) by (simp add: ws convoy_def list_all_iff)
    then show ?thesis using assms(2) False by (simp add: ws)
  qed
qed

lemma convoy_spawnStep:
  assumes "score s = 0" and "convoy y (waves s)"
  shows "convoy y (waves (spawnStep r1 r2 s))"
proof -
  have n: "waves s \<noteq> []" using assms(2) by (simp add: convoy_def)
  show ?thesis
  proof (cases "wy (last (waves s)) < 0.65")
    case True
    then have "y \<le> 0.65" using assms(2) by (intro convoy_low)
    then have "convoy y (waves (spawnWave r2 s))" by (rule convoy_spawnWave [OF assms])
    then show ?thesis using n True by (simp add: spawnStep_def Let_def)
  next
    case False
    then show ?thesis using n assms(2) by (simp add: spawnStep_def Let_def)
  qed
qed

lemma convoy_first:
  assumes "score s = 0" and "waves s = []"
  shows "convoy 1.15 (waves (spawnStep 0 r2 s))"
  using assms by (simp add: spawnStep_def spawnWave_def Let_def clamp_def convoy_def)

lemma advance_at:
  assumes "speed v = c"
  shows "wy (advance dt v) = wy v - dt * c \<and> speed (advance dt v) = c \<and>
         gapX (advance dt v) = gapX v \<and> gapW (advance dt v) = gapW v"
  using assms by (simp add: advance_def)

lemma convoy_advance:
  assumes "convoy y ws"
  shows "convoy (y - dt * 0.35) (map (advance dt) ws)"
proof -
  obtain w rest where ws: "ws = w # rest" using assms by (cases ws) (simp_all add: convoy_def)
  have w: "wy w = y" "speed w = 0.35" "gapX w = 0.15" "gapW w = 0.26"
    using assms by (simp_all add: ws convoy_def)
  have h: "wy (advance dt w) = y - dt * 0.35 \<and> speed (advance dt w) = 0.35 \<and>
      gapX (advance dt w) = 0.15 \<and> gapW (advance dt w) = 0.26"
    using advance_at [OF w(2), of dt] w by simp
  have r: "y - dt * 0.35 + 0.5 \<le> wy (advance dt v) \<and> speed (advance dt v) = 0.35"
    if "v \<in> set rest" for v
  proof -
    have a: "y + 0.5 \<le> wy v" and b: "speed v = 0.35"
      using assms that by (simp_all add: ws convoy_def list_all_iff)
    show ?thesis using a advance_at [OF b, of dt] by simp
  qed
  show ?thesis using h r by (simp add: ws convoy_def list_all_iff)
qed

lemma convoy_above:
  assumes "convoy y ws" and "c < y" and "v \<in> set ws"
  shows "c < wy v"
proof -
  obtain w rest where ws: "ws = w # rest" using assms(1) by (cases ws) (simp_all add: convoy_def)
  have "v = w \<or> v \<in> set rest" using assms(3) by (simp add: ws)
  then show ?thesis
  proof
    assume "v = w"
    then show ?thesis using assms by (simp add: ws convoy_def)
  next
    assume "v \<in> set rest"
    then have "y + 0.5 \<le> wy v" using assms(1) by (simp add: ws convoy_def list_all_iff)
    then show ?thesis using assms(2) by simp
  qed
qed

lemma convoy_clear:
  assumes "convoy y ws" and "playerY < y"
  shows "filter (\<lambda>w. crossing dt w \<and> P w) ws = []"
proof -
  have "\<not> crossing dt v" if "v \<in> set ws" for v
    using convoy_above [OF assms that] by (simp add: crossing_def)
  then show ?thesis by (simp add: filter_empty_conv)
qed

lemma convoy_kept:
  assumes "convoy y ws" and "- 0.2 < y"
  shows "filter (\<lambda>w. wy w > - 0.2) ws = ws"
proof -
  have "- 0.2 < wy v" if "v \<in> set ws" for v
    by (rule convoy_above [OF assms that])
  then show ?thesis by (simp add: filter_id_conv)
qed

lemma run_append: "run jsN jsS (es @ es') s = run jsN jsS es' (run jsN jsS es s)"
  by (induction es arbitrary: s) simp_all

lemma tickLive_motion:
  "vel (tickLive jsS now dt r1 r2 s) = vel (preCollide now dt r1 r2 s) \<and>
   px (tickLive jsS now dt r1 r2 s) = px (preCollide now dt r1 r2 s)"
  unfolding tickLive_unfold
  using post_frame [of _ jsS "fst (collide dt (waves (preCollide now dt r1 r2 s)) (preCollide now dt r1 r2 s))"]
    collide_frame [of dt "waves (preCollide now dt r1 r2 s)" "preCollide now dt r1 r2 s"]
  by simp

lemma drift_motion:
  assumes "dash s = 0"
  shows "vel (preCollide now dt r1 r2 s) = (vel s + sin (now * 0.0012) * 0.02 * dt) * 0.08 powr dt \<and>
         px (preCollide now dt r1 r2 s) = clamp (px s + vel (preCollide now dt r1 r2 s)) 0.06 0.94"
proof -
  let ?x = "driftStep now dt (chargeStep dt s)"
  have dx: "dash ?x = 0" using assms by (simp add: driftStep_frame chargeStep_frame)
  have ds: "dashStep dt ?x = ?x" using dx by (simp add: dashStep_def)
  have vx: "vel ?x = vel s + sin (now * 0.0012) * 0.02 * dt"
    by (simp add: driftStep_def Let_def chargeStep_frame)
  have px: "px ?x = px s" by (simp add: driftStep_frame chargeStep_frame)
  have v: "vel (preCollide now dt r1 r2 s) = vel (moveStep dt ?x)"
    by (simp add: preCollide_def advanceWaves_frame spawnStep_frame ds)
  have p: "px (preCollide now dt r1 r2 s) = px (moveStep dt ?x)"
    by (simp add: preCollide_px ds)
  have mv: "vel (moveStep dt ?x) = vel ?x * 0.08 powr dt"
    by (simp add: moveStep_def Let_def)
  have mp: "px (moveStep dt ?x) = clamp (px ?x + vel (moveStep dt ?x)) 0.06 0.94"
    by (simp add: moveStep_def Let_def)
  show ?thesis by (simp only: v p mv mp vx px)
qed

lemma pi_ge_three: "3 \<le> pi"
proof -
  have "sin (pi / 6) \<le> pi / 6" by (rule sin_x_le_x) simp
  then show ?thesis by (simp add: sin_30)
qed

lemma angle_bound:
  fixes r :: real
  assumes "0 \<le> r" and "r \<le> 75"
  shows "0 \<le> (1 + 33 * r) * 0.0012 \<and> (1 + 33 * r) * 0.0012 \<le> 3"
  using assms by (simp add: algebra_simps)

lemma damped_bound:
  fixes x d b :: real
  assumes "0 \<le> d" and "d \<le> 1" and "- b \<le> x" and "0 \<le> b"
  shows "- b \<le> x * d"
proof (cases "0 \<le> x")
  case True
  then have "0 \<le> x * d" using assms(1) by simp
  then show ?thesis using assms(4) by linarith
next
  case False
  then have "0 \<le> (- x) * (1 - d)" using assms(2) by (intro mult_nonneg_nonneg) simp_all
  then have "x \<le> x * d" by (simp add: algebra_simps)
  then show ?thesis using assms(3) by linarith
qed

lemma drift_floor:
  fixes a v e k :: real
  assumes "- (a * (k - 75)) \<le> v" and "- a \<le> e"
  shows "- (a * (k - 74)) \<le> v + e"
  using assms by (simp add: algebra_simps)

lemma place_floor:
  fixes a b h p v k :: real
  assumes "h - b * (k - 75) \<le> p" and "- (a * (k - 74)) \<le> v" and "a * (k - 74) \<le> b"
  shows "h - b * (k - 74) \<le> p + v"
  using assms by (simp add: algebra_simps)

lemma clamp_floor: "c \<le> b \<Longrightarrow> c \<le> x \<Longrightarrow> c \<le> clamp x a b"
  by (simp add: clamp_def)

lemma cruise_motion:
  assumes d: "dash s = 0"
    and v: "- (0.00066 * real (n - 75)) \<le> vel s"
    and p: "0.5 - 0.004 * real (n - 75) \<le> px s"
    and n: "n \<le> 80"
    and now: "now = 1 + 33 * real (Suc n)"
    and s1: "s1 = preCollide now 0.033 r1 r2 s"
  shows "- (0.00066 * real (Suc n - 75)) \<le> vel s1 \<and> 0.5 - 0.004 * real (Suc n - 75) \<le> px s1"
proof -
  let ?d = "(0.08::real) powr 0.033"
  let ?e = "sin (now * 0.0012) * 0.02 * 0.033"
  have m: "vel s1 = (vel s + ?e) * ?d" "px s1 = clamp (px s + vel s1) 0.06 0.94"
    using drift_motion [OF d, of now "0.033" r1 r2] s1 by simp_all
  have d0: "0 \<le> ?d" by simp
  have d1: "?d \<le> 1" by (rule damping_le_one) simp
  show ?thesis
  proof (cases "Suc n \<le> 75")
    case True
    then have z: "n - 75 = 0" "Suc n - 75 = 0" by simp_all
    have "real (Suc n) \<le> real 75" using True by (simp only: of_nat_le_iff)
    then have "real (Suc n) \<le> 75" by simp
    moreover have "0 \<le> real (Suc n)" by (rule of_nat_0_le_iff)
    ultimately have "0 \<le> now * 0.0012" "now * 0.0012 \<le> 3"
      unfolding now using angle_bound [of "real (Suc n)"] by blast+
    then have "0 \<le> sin (now * 0.0012)" using pi_ge_three by (intro sin_ge_zero) simp_all
    then have e: "0 \<le> ?e" by simp
    have "0 \<le> vel s" using v by (simp add: z)
    then have "0 \<le> (vel s + ?e) * ?d" using e d0 by (intro mult_nonneg_nonneg) simp_all
    then have v1: "0 \<le> vel s1" by (simp only: m)
    have "0.5 \<le> px s" using p by (simp add: z)
    then have "0.5 \<le> px s + vel s1" using v1 by simp
    then have "0.5 \<le> clamp (px s + vel s1) 0.06 0.94" by (intro clamp_floor) simp_all
    then have "0.5 \<le> px s1" by (simp only: m)
    then show ?thesis using v1 by (simp add: z)
  next
    case False
    then have n75: "75 \<le> n" by simp
    have r: "real (n - 75) = real n - 75" "real (Suc n - 75) = real n - 74"
      using n75 by (simp_all add: of_nat_diff)
    have "real n \<le> real 80" using n by (simp only: of_nat_le_iff)
    then have rn: "real n \<le> 80" by simp
    have "real 75 \<le> real n" using n75 by (simp only: of_nat_le_iff)
    then have rn': "75 \<le> real n" by simp
    have "- 1 \<le> sin (now * 0.0012)" by simp
    then have e: "- 0.00066 \<le> ?e" by simp
    have v': "- (0.00066 * (real n - 75)) \<le> vel s" using v by (simp only: r)
    have "- (0.00066 * (real n - 74)) \<le> vel s + ?e" by (rule drift_floor [OF v' e])
    then have "- (0.00066 * (real n - 74)) \<le> (vel s + ?e) * ?d"
      using rn' by (intro damped_bound [OF d0 d1]) simp_all
    then have v1: "- (0.00066 * (real n - 74)) \<le> vel s1" by (simp only: m)
    have p': "0.5 - 0.004 * (real n - 75) \<le> px s" using p by (simp only: r)
    have "0.00066 * (real n - 74) \<le> (0.004::real)" using rn by simp
    then have "0.5 - 0.004 * (real n - 74) \<le> px s + vel s1" by (rule place_floor [OF p' v1])
    moreover have "0.5 - 0.004 * (real n - 74) \<le> (0.94::real)"
      using rn' by (simp add: algebra_simps)
    ultimately have "0.5 - 0.004 * (real n - 74) \<le> clamp (px s + vel s1) 0.06 0.94"
      by (intro clamp_floor)
    then have "0.5 - 0.004 * (real n - 74) \<le> px s1" by (simp only: m)
    then show ?thesis using v1 by (simp only: r)
  qed
qed

lemma cruising_dt:
  assumes "lastT s = 1 + 33 * real n"
  shows "tick_dt (1 + 33 * real (Suc n)) s = 0.033"
proof -
  have "0 \<le> real n" by (rule of_nat_0_le_iff)
  then have "lastT s \<noteq> 0" using assms by simp
  then show ?thesis using assms by (simp add: tick_dt_def)
qed

lemma cruise_clear:
  assumes c0: "convoy y (waves (spawnStep r1 r2 s))" and sc: "score s = 0"
    and st: "ui_status (ui s) = LIVE"
    and d: "dash s = 0" and y: "playerY < y - dt * 0.35" and s1: "s1 = preCollide now dt r1 r2 s"
  shows "ui_status (ui (tickLive jsS now dt r1 r2 s)) = LIVE \<and>
         score (tickLive jsS now dt r1 r2 s) = 0 \<and>
         dash (tickLive jsS now dt r1 r2 s) = 0 \<and>
         lastT (tickLive jsS now dt r1 r2 s) = lastT s \<and>
         vel (tickLive jsS now dt r1 r2 s) = vel s1 \<and>
         px (tickLive jsS now dt r1 r2 s) = px s1 \<and>
         convoy (y - dt * 0.35) (waves (tickLive jsS now dt r1 r2 s))"
proof -
  have w1: "waves s1 = map (advance dt) (waves (spawnStep r1 r2 s))"
    using preCollide_frame [of now dt r1 r2 s] s1 by simp
  have c1: "convoy (y - dt * 0.35) (waves s1)" unfolding w1 by (rule convoy_advance [OF c0])
  have m: "missed dt s1 = []" unfolding missed_def by (rule convoy_clear [OF c1 y])
  have p: "passed dt s1 = []" unfolding passed_def by (rule convoy_clear [OF c1 y])
  have 1: "ui_status (ui (tickLive jsS now dt r1 r2 s)) = LIVE"
    using tickLive_outcome [OF s1, of jsS] m st by simp
  have 2: "score (tickLive jsS now dt r1 r2 s) = 0"
    using tickLive_score_idle [OF s1 p, of jsS] sc by simp
  have 3: "dash (tickLive jsS now dt r1 r2 s) = 0 \<and> lastT (tickLive jsS now dt r1 r2 s) = lastT s"
    using tickLive_frame [of jsS now dt r1 r2 s] d by (simp add: dashStep_dash)
  have 4: "vel (tickLive jsS now dt r1 r2 s) = vel s1 \<and> px (tickLive jsS now dt r1 r2 s) = px s1"
    using tickLive_motion [of jsS now dt r1 r2 s] s1 by simp
  have "- 0.2 < y - dt * 0.35" using y by (simp add: playerY_def)
  then have "filter (\<lambda>w. wy w > - 0.2) (waves s1) = waves s1" by (rule convoy_kept [OF c1])
  then have "waves (tickLive jsS now dt r1 r2 s) = waves s1"
    using tickLive_frame [of jsS now dt r1 r2 s] by (simp only: w1)
  then have 5: "convoy (y - dt * 0.35) (waves (tickLive jsS now dt r1 r2 s))"
    using c1 by simp
  show ?thesis using 1 2 3 4 5 by simp
qed

lemma step_frame_live:
  assumes "ui_status (ui s) = LIVE"
    and "ui_status (ui (tickLive jsS now (tick_dt now s) r1 r2 (s\<lparr>lastT := now\<rparr>))) = LIVE"
  shows "step jsN jsS (Tick now r1 r2) s = tickLive jsS now (tick_dt now s) r1 r2 (s\<lparr>lastT := now\<rparr>)"
  using assms by (simp add: step_def handle_def tick_live)

lemma height_step:
  fixes k :: real
  shows "1.15 - 0.01155 * k - 0.033 * 0.35 = 1.15 - 0.01155 * (k + 1)"
  by (simp add: field_simps)

lemma height_clear:
  fixes k :: real
  assumes "k \<le> 80"
  shows "0.22 < 1.15 - 0.01155 * k"
  using assms by simp

lemma height_above:
  assumes "n < 80"
  shows "playerY < 1.15 - 0.01155 * real (Suc n)"
proof -
  have "real (Suc n) \<le> real 80" using assms by (simp only: of_nat_le_iff Suc_le_eq)
  then have "real (Suc n) \<le> 80" by simp
  then show ?thesis unfolding playerY_def by (rule height_clear)
qed

lemma cruise_frame:
  assumes c: "cruising n s" and n: "n < 80"
  shows "cruising (Suc n) (step num0 str0 (frameAt (Suc n)) s)"
proof -
  let ?now = "1 + 33 * real (Suc n)"
  let ?s = "s\<lparr>lastT := ?now\<rparr>"
  let ?y = "1.15 - 0.01155 * real n"
  let ?T = "tickLive str0 ?now 0.033 0 0 ?s"
  define s1 where "s1 = preCollide ?now 0.033 0 0 ?s"
  have st: "ui_status (ui ?s) = LIVE" and sc: "score ?s = 0" and d: "dash ?s = 0"
    and cv: "convoy ?y (waves ?s)"
    and v: "- (0.00066 * real (n - 75)) \<le> vel ?s" and p: "0.5 - 0.004 * real (n - 75) \<le> px ?s"
    using c by (simp_all add: cruising_def)
  have c0: "convoy ?y (waves (spawnStep 0 0 ?s))" by (rule convoy_spawnStep [OF sc cv])
  have l: "lastT s = 1 + 33 * real n" using c by (simp add: cruising_def)
  have dt: "tick_dt ?now s = 0.033" by (rule cruising_dt [OF l])
  have h: "?y - 0.033 * 0.35 = 1.15 - 0.01155 * real (Suc n)"
    using height_step [of "real n"] by simp
  have y: "playerY < ?y - 0.033 * 0.35" unfolding h by (rule height_above [OF n])
  have o: "ui_status (ui ?T) = LIVE \<and> score ?T = 0 \<and> dash ?T = 0 \<and> lastT ?T = lastT ?s \<and>
      vel ?T = vel s1 \<and> px ?T = px s1 \<and> convoy (?y - 0.033 * 0.35) (waves ?T)"
    by (rule cruise_clear [OF c0 sc st d y s1_def])
  have n': "n \<le> 80" using n by simp
  have mo: "- (0.00066 * real (Suc n - 75)) \<le> vel s1 \<and> 0.5 - 0.004 * real (Suc n - 75) \<le> px s1"
    by (rule cruise_motion [OF d v p n' refl s1_def])
  have "ui_status (ui s) = LIVE" using st by simp
  moreover have "ui_status (ui (tickLive str0 ?now (tick_dt ?now s) 0 0 ?s)) = LIVE"
    using o by (simp only: dt)
  ultimately have "step num0 str0 (Tick ?now 0 0) s = tickLive str0 ?now (tick_dt ?now s) 0 0 ?s"
    by (rule step_frame_live)
  then have e: "step num0 str0 (frameAt (Suc n)) s = ?T" by (simp only: dt frameAt_def)
  have cv': "convoy (1.15 - 0.01155 * real (Suc n)) (waves ?T)" using o by (simp only: h)
  have lt: "lastT ?T = 1 + 33 * real (Suc n)" using o by simp
  show ?thesis
    unfolding e cruising_def using o mo cv' lt by simp
qed

lemma sHeld_fields:
  "ui_status (ui sHeld) = LIVE \<and> lastT sHeld = 0 \<and> dash sHeld = 0 \<and> score sHeld = 0 \<and>
   vel sHeld = 0 \<and> px sHeld = 0.5 \<and> waves sHeld = []"
  by (simp add: sHeld_def step_def handle_def onHoldStart_def reset_def mount_def loadBest_def
      init_def getItem_def st0_def num0_def Let_def)

lemma cruise_start: "cruising 0 (step num0 str0 (frameAt 0) sHeld)"
proof -
  let ?s = "sHeld\<lparr>lastT := 1\<rparr>"
  let ?T = "tickLive str0 1 0 0 0 ?s"
  define s1 where "s1 = preCollide 1 0 0 0 ?s"
  have st: "ui_status (ui ?s) = LIVE" and sc: "score ?s = 0" and d: "dash ?s = 0"
    and w: "waves ?s = []" and v: "vel ?s = 0" and p: "px ?s = 0.5"
    using sHeld_fields by simp_all
  have dt: "tick_dt 1 sHeld = 0" using sHeld_fields by (simp add: tick_dt_def)
  have c0: "convoy 1.15 (waves (spawnStep 0 0 ?s))" by (rule convoy_first [OF sc w])
  have y: "playerY < 1.15 - 0 * 0.35" by (simp add: playerY_def)
  have o: "ui_status (ui ?T) = LIVE \<and> score ?T = 0 \<and> dash ?T = 0 \<and> lastT ?T = lastT ?s \<and>
      vel ?T = vel s1 \<and> px ?T = px s1 \<and> convoy (1.15 - 0 * 0.35) (waves ?T)"
    by (rule cruise_clear [OF c0 sc st d y s1_def])
  have mo: "vel s1 = 0 \<and> px s1 = 0.5"
    using drift_motion [OF d, of 1 0 0 0] v p by (simp add: s1_def clamp_def)
  have "ui_status (ui sHeld) = LIVE" using sHeld_fields by simp
  moreover have "ui_status (ui (tickLive str0 1 (tick_dt 1 sHeld) 0 0 ?s)) = LIVE"
    using o by (simp only: dt)
  ultimately have "step num0 str0 (Tick 1 0 0) sHeld = tickLive str0 1 (tick_dt 1 sHeld) 0 0 ?s"
    by (rule step_frame_live)
  then have e: "step num0 str0 (frameAt 0) sHeld = ?T" by (simp add: dt frameAt_def)
  show ?thesis unfolding e cruising_def using o mo by simp
qed

lemma cruise_run: "n \<le> 80 \<Longrightarrow> cruising n (run num0 str0 (map frameAt [0..<Suc n]) sHeld)"
proof (induction n)
  case 0
  show ?case using cruise_start by simp
next
  case (Suc n)
  then have c: "cruising n (run num0 str0 (map frameAt [0..<Suc n]) sHeld)" and n: "n < 80"
    by simp_all
  have "run num0 str0 (map frameAt [0..<Suc (Suc n)]) sHeld =
        step num0 str0 (frameAt (Suc n)) (run num0 str0 (map frameAt [0..<Suc n]) sHeld)"
    by (simp add: run_append)
  then show ?case using cruise_frame [OF c n] by (simp only:)
qed

lemma sMiss_cruising: "cruising 80 sMiss"
proof -
  have "[0..<81] = [0..<Suc 80]" by simp
  then have "sMiss = run num0 str0 (map frameAt [0..<Suc 80]) sHeld"
    by (simp only: sMiss_def missRun_def sHeld_def run.simps)
  then show ?thesis using cruise_run [of 80] by simp
qed

lemma frames_monotonic:
  "monotonic t (map frameAt [a..<a + n] @ es) =
     (if n = 0 then monotonic t es
      else t \<le> 1 + 33 * real a \<and> monotonic (1 + 33 * real (a + n - 1)) es)"
proof (induction n arbitrary: a t)
  case 0
  show ?case by simp
next
  case (Suc n)
  have u: "[a..<a + Suc n] = a # [Suc a..<Suc a + n]" by (simp add: upt_conv_Cons)
  have step: "monotonic t (map frameAt [a..<a + Suc n] @ es) =
        (t \<le> 1 + 33 * real a \<and> monotonic (1 + 33 * real a) (map frameAt [Suc a..<Suc a + n] @ es))"
    by (simp only: u list.map append_Cons frameAt_def monotonic.simps)
  show ?case unfolding step Suc.IH by (cases n) simp_all
qed

lemma missRun_monotonic: "monotonic 0 (missRun @ [Tick 2674 0 0])"
proof -
  have "[0..<81] = [0..<0 + 81]" by simp
  then have "monotonic 0 (missRun @ [Tick 2674 0 0]) =
        monotonic 0 (map frameAt [0..<0 + 81] @ [Tick 2674 0 0])"
    by (simp only: missRun_def append_Cons monotonic.simps)
  then show ?thesis by (simp only: frames_monotonic) simp
qed

lemma convoy_miss:
  assumes "convoy y ws" and "y \<le> playerY" and "playerY - dt * 0.35 < y" and "0.28 < p"
  shows "filter (\<lambda>w. crossing dt w \<and> \<not> inside p w) ws \<noteq> []"
proof -
  obtain w rest where ws: "ws = w # rest" using assms(1) by (cases ws) (simp_all add: convoy_def)
  have w: "wy w = y" "speed w = 0.35" "gapX w = 0.15" "gapW w = 0.26"
    using assms(1) by (simp_all add: ws convoy_def)
  have c: "crossing dt w" using assms(2) assms(3) by (simp add: crossing_def w)
  have "gapRight w = 0.28" by (simp add: gapRight_def w)
  then have "\<not> inside p w" using assms(4) by (simp add: inside_def)
  then show ?thesis using c by (simp add: ws)
qed

lemma sMiss_frame:
  "ui_status (ui sMiss) = LIVE \<and>
   missed (tick_dt 2674 sMiss) (preCollide 2674 (tick_dt 2674 sMiss) 0 0 (sMiss\<lparr>lastT := 2674\<rparr>)) \<noteq> []"
proof -
  let ?s = "sMiss\<lparr>lastT := 2674\<rparr>"
  define s1 where "s1 = preCollide 2674 0.033 0 0 ?s"
  have st: "ui_status (ui sMiss) = LIVE" and sc: "score ?s = 0" and d: "dash ?s = 0"
    and cv: "convoy (1.15 - 0.01155 * real 80) (waves ?s)"
    and v: "- (0.00066 * real (80 - 75)) \<le> vel ?s" and p: "0.5 - 0.004 * real (80 - 75) \<le> px ?s"
    and l: "lastT sMiss = 1 + 33 * real 80"
    using sMiss_cruising by (simp_all add: cruising_def)
  have now: "(2674::real) = 1 + 33 * real (Suc 80)" by simp
  have dt: "tick_dt 2674 sMiss = 0.033" unfolding now by (rule cruising_dt [OF l])
  have c0: "convoy (1.15 - 0.01155 * real 80) (waves (spawnStep 0 0 ?s))"
    by (rule convoy_spawnStep [OF sc cv])
  have w1: "waves s1 = map (advance 0.033) (waves (spawnStep 0 0 ?s))"
    using preCollide_frame [of 2674 "0.033" 0 0 ?s] by (simp add: s1_def)
  have c1: "convoy (1.15 - 0.01155 * real 80 - 0.033 * 0.35) (waves s1)"
    unfolding w1 by (rule convoy_advance [OF c0])
  have mo: "- (0.00066 * real (Suc 80 - 75)) \<le> vel s1 \<and> 0.5 - 0.004 * real (Suc 80 - 75) \<le> px s1"
    by (rule cruise_motion [OF d v p _ now s1_def]) simp
  then have px: "0.28 < px s1" by simp
  have "filter (\<lambda>w. crossing 0.033 w \<and> \<not> inside (px s1) w) (waves s1) \<noteq> []"
    by (rule convoy_miss [OF c1 _ _ px]) (simp_all add: playerY_def)
  then have "missed 0.033 s1 \<noteq> []" unfolding missed_def .
  then have m: "missed (tick_dt 2674 sMiss)
      (preCollide 2674 (tick_dt 2674 sMiss) 0 0 (sMiss\<lparr>lastT := 2674\<rparr>)) \<noteq> []"
    unfolding dt s1_def .
  from st m show ?thesis by (rule conjI)
qed

section \<open>A miss ends the run once\<close>

text \<open>
  C2. In every frame the component receives while the status is LIVE (after any events
  since the mount, the timestamps of the frames never decreasing) in which a wave
  crosses the band outside its gap: that wave is the only one to cross in the frame,
  the collision loop passes the update to DOWN to \<open>setUi\<close> exactly once, nothing is
  counted as a hit and the score is unchanged, the frame ends with the player dead and
  the status DOWN, and a later frame changes nothing but the timestamp it records.
\<close>

theorem one_miss_per_frame:
  assumes "monotonic 0 (es @ [Tick now r1 r2])"
    and "s = run jsN jsS es (mount jsN t st)"
    and "ui_status (ui s) = LIVE"
    and "s1 = preCollide now (tick_dt now s) r1 r2 (s\<lparr>lastT := now\<rparr>)"
    and "missed (tick_dt now s) s1 \<noteq> []"
  shows "downCalls now r1 r2 s = [uiDown] \<and>
         length (missed (tick_dt now s) s1) = 1 \<and> passed (tick_dt now s) s1 = [] \<and>
         ui_status (ui (tick jsS now r1 r2 s)) = DOWN \<and> \<not> alive (tick jsS now r1 r2 s) \<and>
         score (tick jsS now r1 r2 s) = score s \<and> hits (tick jsS now r1 r2 s) = hits s \<and>
         tick jsS now' r1' r2' (tick jsS now r1 r2 s) = (tick jsS now r1 r2 s)\<lparr>lastT := now'\<rparr>"
proof -
  let ?dt = "tick_dt now s"
  let ?T = "tick jsS now r1 r2 s"
  have one: "length (missed ?dt s1) + length (passed ?dt s1) \<le> 1"
    by (rule frame_one_crossing [OF assms(1) assms(2) assms(4)])
  have "0 < length (missed ?dt s1)" using assms(5) by simp
  then have m: "length (missed ?dt s1) = 1" and "length (passed ?dt s1) = 0"
    using one by linarith+
  then have p: "passed ?dt s1 = []" by (simp only: length_0_conv)
  have t: "?T = tickLive jsS now ?dt r1 r2 (s\<lparr>lastT := now\<rparr>)"
    using assms(3) by (rule tick_live)
  have o: "ui_status (ui ?T) = DOWN \<and> alive ?T = False \<and> hits ?T = hits s \<and>
      snd (collide ?dt (waves s1) s1) = [uiDown]"
    using tickLive_outcome [OF assms(4), of jsS] assms(5) m p by (simp add: t)
  have d: "downCalls now r1 r2 s = snd (collide ?dt (waves s1) s1)"
    using assms(4) by (simp add: downCalls_def Let_def)
  have sc: "score ?T = score s"
    using tickLive_score_idle [OF assms(4) p, of jsS] by (simp add: t)
  have "ui_status (ui ?T) \<noteq> LIVE" using o by simp
  then have f: "tick jsS now' r1' r2' ?T = ?T\<lparr>lastT := now'\<rparr>" by (rule tick_idle)
  show ?thesis using o d m p sc f by simp
qed

text \<open>
  The frame at 2674 after \<open>missRun\<close>: the first wave crosses the band at 0.21445, its
  gap ends at 0.28 and the player is to the right of 0.47.
\<close>

theorem one_miss_per_frame_witness:
  "monotonic 0 (missRun @ [Tick 2674 0 0]) \<and>
   sMiss = run num0 str0 missRun (mount num0 0 st0) \<and>
   ui_status (ui sMiss) = LIVE \<and>
   missed (tick_dt 2674 sMiss)
     (preCollide 2674 (tick_dt 2674 sMiss) 0 0 (sMiss\<lparr>lastT := 2674\<rparr>)) \<noteq> [] \<and>
   downCalls 2674 0 0 sMiss = [uiDown] \<and>
   length (missed (tick_dt 2674 sMiss)
     (preCollide 2674 (tick_dt 2674 sMiss) 0 0 (sMiss\<lparr>lastT := 2674\<rparr>))) = 1 \<and>
   passed (tick_dt 2674 sMiss)
     (preCollide 2674 (tick_dt 2674 sMiss) 0 0 (sMiss\<lparr>lastT := 2674\<rparr>)) = [] \<and>
   ui_status (ui (tick str0 2674 0 0 sMiss)) = DOWN \<and> \<not> alive (tick str0 2674 0 0 sMiss) \<and>
   score (tick str0 2674 0 0 sMiss) = score sMiss \<and>
   hits (tick str0 2674 0 0 sMiss) = hits sMiss \<and>
   tick str0 2707 0 0 (tick str0 2674 0 0 sMiss) = (tick str0 2674 0 0 sMiss)\<lparr>lastT := 2707\<rparr>"
proof -
  have live: "ui_status (ui sMiss) = LIVE" using sMiss_frame by (rule conjunct1)
  have miss: "missed (tick_dt 2674 sMiss)
      (preCollide 2674 (tick_dt 2674 sMiss) 0 0 (sMiss\<lparr>lastT := 2674\<rparr>)) \<noteq> []"
    using sMiss_frame by (rule conjunct2)
  show ?thesis
    using one_miss_per_frame [OF missRun_monotonic sMiss_def live refl miss, of 2707 0 0]
      missRun_monotonic sMiss_def live miss
    by blast
qed

end
